theory Spec2Isabelle
  imports Complex_Main "HOL-Library.Extended_Nat" "HOL-Library.Product_Lexorder"
begin

section \<open>Number model and data model\<close>

text \<open>
  The program is the class \<open>SplitterAlgorithm\<close> of \<open>src/main.js\<close>.  JavaScript numbers
  are modelled as exact rationals (\<^typ>\<open>rat\<close>): every comparison, sum and product of the
  source is kept, with rounding left out.  The value \<open>Infinity\<close> is written out where the
  source produces it on purpose: the depth of an unmatched ratio is \<open>\<infinity>\<close> in \<^typ>\<open>enat\<close>,
  and the initial \<open>minExcess = Infinity\<close> is \<open>None\<close>.  The inputs are the validated ones
  of the caller in \<open>calculate()\<close>: a non-empty battery list with positive \<open>power\<close> and
  \<open>consume\<close>, and non-negative \<open>D\<close>, \<open>P_base\<close>, \<open>R\<close>, \<open>maxDepth\<close>.
\<close>

record Ratio =
  "value" :: rat
  fraction :: string
  depth :: enat

record BatteryType =
  name :: string
  power :: rat
  consume :: rat

text \<open>An element of the sequence built by \<open>findSplitSequence\<close>.\<close>

datatype SplitKind = splitter | battery | return

record Split =
  "type" :: SplitKind
  outlets :: nat
  targetOutlet :: nat

section \<open>Ratio catalog\<close>

text \<open>The pairs \<open>(a, b)\<close> visited by the double loop \<open>for a = 0..10, for b = 0..10\<close>
  of \<open>toFraction\<close>, \<open>getDepth\<close> and \<open>findSplitSequence\<close>, in loop order.\<close>

definition ab_grid :: "(nat \<times> nat) list" where
  "ab_grid = concat (map (\<lambda>a. map (\<lambda>b. (a, b)) [0..<11]) [0..<11])"

text \<open>\<open>Math.pow(0.5, a) * Math.pow(1 / 3, b)\<close>.\<close>

definition pow_value :: "nat \<Rightarrow> nat \<Rightarrow> rat" where
  "pow_value a b = (1 / 2) ^ a * (1 / 3) ^ b"

text \<open>The first pair of the grid with \<open>Math.abs(v - value) < 1e-10\<close>.\<close>

definition match_ab :: "rat \<Rightarrow> (nat \<times> nat) option" where
  "match_ab v = find (\<lambda>(a, b). \<bar>pow_value a b - v\<bar> < 1 / 10 ^ 10) ab_grid"

text \<open>Decimal rendering of a natural number, as template strings print an integer.\<close>

definition digit_char :: "nat \<Rightarrow> char" where
  "digit_char d = ''0123456789'' ! d"

fun show_nat :: "nat \<Rightarrow> string" where
  "show_nat n = (if n < 10 then [digit_char n] else show_nat (n div 10) @ [digit_char (n mod 10)])"

declare show_nat.simps [simp del]

text \<open>\<open>x.toFixed(d)\<close>: the nearest multiple of \<open>10^-d\<close> (the larger one on a tie, taken
  on the absolute value), printed with \<open>d\<close> decimals (no point when \<open>d = 0\<close>).\<close>

definition toFixed :: "nat \<Rightarrow> rat \<Rightarrow> string" where
  "toFixed d v =
     (let m = nat \<lfloor>\<bar>v\<bar> * 10 ^ d + 1 / 2\<rfloor>;
          digits = show_nat (m mod 10 ^ d)
      in (if v < 0 \<and> m \<noteq> 0 then ''-'' else '''') @ show_nat (m div 10 ^ d)
         @ (if d = 0 then '''' else ''.'' @ replicate (d - length digits) (CHR ''0'') @ digits))"

definition toFraction :: "rat \<Rightarrow> string" where
  "toFraction v =
     (if v = 1 then ''1''
      else case match_ab v of
             Some (a, b) \<Rightarrow> ''1/'' @ show_nat (2 ^ a * 3 ^ b)
           | None \<Rightarrow> toFixed 6 v)"

definition getDepth :: "rat \<Rightarrow> enat" where
  "getDepth v =
     (if v = 1 then 0
      else case match_ab v of
             Some (a, b) \<Rightarrow> enat (a + b)
           | None \<Rightarrow> \<infinity>)"

text \<open>\<open>Set.prototype.add\<close>: a JavaScript \<open>Set\<close> keeps insertion order and ignores a value
  that is already a member.\<close>

definition set_add :: "'a \<Rightarrow> 'a list \<Rightarrow> 'a list" where
  "set_add v s = (if v \<in> set s then s else s @ [v])"

text \<open>The values added by the double loop of \<open>generateValidRatios\<close>, in loop order:
  \<open>a = 0..maxDepth\<close>, \<open>b = 0..maxDepth - a\<close>, the pair \<open>(0, 0)\<close> skipped.\<close>

definition loop_values :: "nat \<Rightarrow> rat list" where
  "loop_values maxDepth =
     map (\<lambda>(a, b). pow_value a b)
       (filter (\<lambda>(a, b). \<not> (a = 0 \<and> b = 0))
         (concat (map (\<lambda>a. map (\<lambda>b. (a, b)) [0..<Suc (maxDepth - a)]) [0..<Suc maxDepth])))"

definition mkRatio :: "rat \<Rightarrow> Ratio" where
  "mkRatio v = \<lparr>value = v, fraction = toFraction v, depth = getDepth v\<rparr>"

text \<open>\<open>generateValidRatios(maxDepth)\<close>.  The set starts as \<open>{1}\<close>; the array is sorted by
  \<open>b.value - a.value\<close>, a stable sort by descending value.  The result is also stored in
  \<open>this.validRatios\<close>; the functions that read that field take it as a parameter.\<close>

definition generateValidRatios :: "nat \<Rightarrow> Ratio list" where
  "generateValidRatios maxDepth =
     sort_key (\<lambda>r. - value r) (map mkRatio (fold set_add (loop_values maxDepth) [1]))"

section \<open>Assignment optimizer\<close>

record Assignment =
  name :: string
  ratio :: Ratio
  dutyCycle :: rat
  power :: rat
  typeData :: BatteryType

text \<open>The object pushed on \<open>currentAssignment\<close> for one ratio and one battery type.\<close>

definition mkAssignment :: "rat \<Rightarrow> Ratio \<Rightarrow> BatteryType \<Rightarrow> Assignment" where
  "mkAssignment supply r battType =
     (let dutyCycle = min 1 (supply * value r / consume battType);
          power = BatteryType.power battType * dutyCycle
      in \<lparr>name = BatteryType.name battType, ratio = r, dutyCycle = dutyCycle,
          power = power, typeData = battType\<rparr>)"

record AssignResult =
  totalGenerated :: rat
  batteries :: "Assignment list"

text \<open>The two variables \<open>bestResult\<close> and \<open>minExcess\<close> that the closure \<open>assign\<close> updates;
  \<open>minExcess = None\<close> is the initial \<open>Infinity\<close>.\<close>

record AssignState =
  bestResult :: "AssignResult option"
  minExcess :: "rat option"

text \<open>The closure \<open>assign(index, currentAssignment, currentPower)\<close>.  The list argument is
  \<open>ratios.slice(index)\<close>: empty when \<open>index === ratios.length\<close>, and \<open>ratios[index]\<close> is its
  head.  The loop over \<open>batteryTypes\<close> threads the state through the recursive calls.\<close>

fun assign ::
  "BatteryType list \<Rightarrow> rat \<Rightarrow> rat \<Rightarrow> Ratio list \<Rightarrow> Assignment list \<Rightarrow> rat
     \<Rightarrow> AssignState \<Rightarrow> AssignState" where
  "assign batteryTypes targetPower supply [] currentAssignment currentPower st =
     (if currentPower \<ge> targetPower - 1 / 100 then
        (let excess = currentPower - targetPower in
         if (case minExcess st of None \<Rightarrow> True | Some m \<Rightarrow> excess < m)
         then \<lparr>bestResult = Some \<lparr>totalGenerated = currentPower, batteries = currentAssignment\<rparr>,
               minExcess = Some excess\<rparr>
         else st)
      else st)"
| "assign batteryTypes targetPower supply (r # rest) currentAssignment currentPower st =
     fold (\<lambda>battType st'.
             let a = mkAssignment supply r battType
             in assign batteryTypes targetPower supply rest (currentAssignment @ [a])
                  (currentPower + Assignment.power a) st')
          batteryTypes st"

definition findBestVariableAssignment ::
  "Ratio list \<Rightarrow> BatteryType list \<Rightarrow> rat \<Rightarrow> rat \<Rightarrow> AssignResult option" where
  "findBestVariableAssignment ratios batteryTypes targetPower supply =
     bestResult (assign batteryTypes targetPower supply ratios [] 0
                   \<lparr>bestResult = None, minExcess = None\<rparr>)"

section \<open>Combination search\<close>

record Params =
  D :: rat
  P_base :: rat
  batteries :: "BatteryType list"
  R :: rat
  maxDepth :: nat

datatype SolutionType = precision | simple | balanced | base

text \<open>A solution object.  \<open>type\<close> is absent (\<open>None\<close>) until the ranking sets it; the
  fields \<open>name\<close> and \<open>desc\<close> are display texts written together with \<open>type\<close> and are left
  out.  The base solution has no \<open>success\<close> and no \<open>totalRatio\<close> field: reading them gives
  \<open>undefined\<close>, which is falsy, modelled as \<open>False\<close> and \<open>None\<close>.\<close>

record Solution =
  "type" :: "SolutionType option"
  success :: bool
  batteryCount :: nat
  batteries :: "Assignment list"
  totalPower :: rat
  excess :: rat
  totalRatio :: "rat option"
  complexity :: enat

text \<open>\<open>Math.max(...xs)\<close> and \<open>Math.min(...xs)\<close> of a non-empty list.\<close>

definition maximum :: "rat list \<Rightarrow> rat" where
  "maximum xs = fold max (tl xs) (hd xs)"

definition minimum :: "rat list \<Rightarrow> rat" where
  "minimum xs = fold min (tl xs) (hd xs)"

text \<open>\<open>usableRatios\<close> of \<open>searchForNBatteries\<close>.  With no battery type \<open>Math.max()\<close> is
  \<open>-Infinity\<close> and no ratio passes the filter; with \<open>R = 0\<close> and positive consumption
  \<open>b.consume / R\<close> is \<open>Infinity\<close> and every ratio passes.\<close>

definition usableRatios :: "Params \<Rightarrow> Ratio list \<Rightarrow> Ratio list" where
  "usableRatios params validRatios =
     (if Params.batteries params = [] then []
      else if R params = 0 then validRatios
      else let maxFullLoadRatio = maximum (map (\<lambda>b. consume b / R params) (Params.batteries params))
           in filter (\<lambda>r. value r \<le> maxFullLoadRatio + 1 / 10000) validRatios)"

text \<open>\<open>currentRatios.reduce((sum, r) => sum + r.value, 0)\<close> and the same for \<open>r.depth\<close>.\<close>

definition sumValues :: "Ratio list \<Rightarrow> rat" where
  "sumValues rs = foldl (\<lambda>sum r. sum + value r) 0 rs"

definition sumDepths :: "Ratio list \<Rightarrow> enat" where
  "sumDepths rs = foldl (\<lambda>sum r. sum + depth r) 0 rs"

text \<open>The closure \<open>searchCombinations(index, currentRatios, remainingSum)\<close>; the result is
  the list of candidates it pushes, in push order.  The first numeric argument after \<open>n\<close>
  is \<open>n - currentRatios.length\<close>, so that \<open>currentRatios.length === n\<close> is the case \<open>0\<close>;
  \<open>remainingSum\<close> is never read and is left out.\<close>

fun searchCombinations ::
  "Params \<Rightarrow> Ratio list \<Rightarrow> nat \<Rightarrow> nat \<Rightarrow> nat \<Rightarrow> Ratio list \<Rightarrow> Solution list" where
  "searchCombinations params usable n 0 index currentRatios =
     (let totalRatio = sumValues currentRatios in
      if totalRatio > 1 + 1 / 10 ^ 10 then []
      else case findBestVariableAssignment currentRatios (Params.batteries params)
                  (D params - P_base params) (R params) of
             None \<Rightarrow> []
           | Some assignment \<Rightarrow>
               (let totalPower = P_base params + totalGenerated assignment;
                    excess = totalPower - D params;
                    totalDepth = sumDepths currentRatios;
                    complexity = enat (n * 10) + totalDepth
                in [\<lparr>type = None, success = True, batteryCount = n,
                      batteries = AssignResult.batteries assignment,
                      totalPower = totalPower, excess = excess,
                      totalRatio = Some totalRatio, complexity = complexity\<rparr>]))"
| "searchCombinations params usable n (Suc k) index currentRatios =
     (let currentSum = sumValues currentRatios in
      if currentSum > 1 + 1 / 10 ^ 10 then []
      else concat (map (\<lambda>i. let r = usable ! i in
                              if currentSum + value r > 1 + 1 / 10 ^ 10 then []
                              else searchCombinations params usable n k i (currentRatios @ [r]))
                       [index..<length usable]))"

text \<open>\<open>searchForNBatteries(n, params)\<close>, reading \<open>this.validRatios\<close> from its third
  argument.\<close>

definition searchForNBatteries :: "nat \<Rightarrow> Params \<Rightarrow> Ratio list \<Rightarrow> Solution list" where
  "searchForNBatteries n params validRatios =
     (let usable = usableRatios params validRatios in
      if usable = [] then [] else searchCombinations params usable n n 0 [])"

section \<open>Ranking\<close>

text \<open>The three shapes of the object returned by \<open>searchOptimalCombination\<close>:
  \<open>{baseSolution: true, solutions}\<close>, \<open>{success: false, message, solutions: []}\<close> and
  \<open>{success: true, solutions}\<close>.\<close>

datatype SearchResult =
    BaseResult (solutions: "Solution list")
  | FailureResult (message: string) (solutions: "Solution list")
  | SuccessResult (solutions: "Solution list")

text \<open>The failure message of the source is a Chinese sentence; this is its translation.\<close>

definition noSolutionMessage :: string where
  "noSolutionMessage = ''no plan meeting the demand could be found''"

text \<open>The range \<open>minBatteries..searchLimit\<close> of the outer loop.\<close>

definition minBatteries :: "Params \<Rightarrow> int" where
  "minBatteries params =
     \<lceil>(D params - P_base params) / maximum (map BatteryType.power (Params.batteries params))\<rceil>"

definition searchLimit :: "Params \<Rightarrow> int" where
  "searchLimit params =
     (let minConsume = minimum (map consume (Params.batteries params));
          maxBatteriesFromFuel = \<lfloor>R params / minConsume\<rfloor>
      in min (minBatteries params + 3) (min (maxBatteriesFromFuel + 2) 8))"

text \<open>\<open>allCandidates\<close> after the outer loop: the candidates of every \<open>n\<close>, concatenated
  in the order they were found.\<close>

definition allCandidates :: "Params \<Rightarrow> Solution list" where
  "allCandidates params =
     (let validRatios = generateValidRatios (maxDepth params)
      in concat (map (\<lambda>n. searchForNBatteries (nat n) params validRatios)
                     [minBatteries params..searchLimit params]))"

text \<open>The ranking works on object references and writes the \<open>type\<close> field through them.
  A reference is the position of the candidate in the merged list together with the
  candidate; two references are the same object (\<open>===\<close>) when the positions agree.  The
  writes to \<open>type\<close> are collected in a store from positions to types, in program order,
  and read back when the result list is built.\<close>

type_synonym Ref = "nat \<times> Solution"

definition sameObject :: "Ref \<Rightarrow> Ref \<Rightarrow> bool" where
  "sameObject a b = (fst a = fst b)"

definition setType :: "Ref \<Rightarrow> SolutionType \<Rightarrow> (nat \<rightharpoonup> SolutionType) \<Rightarrow> (nat \<rightharpoonup> SolutionType)" where
  "setType c t store = store(fst c \<mapsto> t)"

definition deref :: "(nat \<rightharpoonup> SolutionType) \<Rightarrow> Ref \<Rightarrow> Solution" where
  "deref store c = (snd c)\<lparr>type := store (fst c)\<rparr>"

text \<open>\<open>allCandidates.sort((a, b) => a.excess - b.excess)\<close>: stable, and in place, so that
  every later read of \<open>allCandidates\<close> sees the sorted array.\<close>

definition sortByExcess :: "Ref list \<Rightarrow> Ref list" where
  "sortByExcess cs = sort_key (\<lambda>c. excess (snd c)) cs"

text \<open>The test of the balanced pick on one candidate: another object than both earlier
  picks, whose excess differs from the precision pick's by more than \<open>1\<close> or whose
  battery count differs.\<close>

definition balancedTest :: "Ref \<Rightarrow> Ref \<Rightarrow> Ref \<Rightarrow> bool" where
  "balancedTest bestPrecision bestSimple cand =
     (\<not> sameObject cand bestPrecision \<and> \<not> sameObject cand bestSimple \<and>
      (\<bar>excess (snd cand) - excess (snd bestPrecision)\<bar> > 1 \<or>
       batteryCount (snd cand) \<noteq> batteryCount (snd bestPrecision)))"

text \<open>The values that the body of \<open>searchOptimalCombination\<close> computes after the
  emptiness test, each as a function of the references to the merged candidates:
  \<open>bestPrecision = allCandidates[0]\<close> after the sort; \<open>simpleCandidates\<close> after its own
  sort by \<open>a.complexity - b.complexity || a.excess - b.excess\<close>; \<open>bestSimple\<close> before and
  after the attempt to replace it; \<open>bestBalanced\<close>, the first candidate of the scan
  \<open>for (const cand of allCandidates)\<close> that passes the test.\<close>

definition bestPrecisionOf :: "Ref list \<Rightarrow> Ref" where
  "bestPrecisionOf refs = hd (sortByExcess refs)"

definition simpleCandidatesOf :: "rat \<Rightarrow> Ref list \<Rightarrow> Ref list" where
  "simpleCandidatesOf target refs =
     (let excessThreshold = max (target * (5 / 100)) 100
      in sort_key (\<lambda>c. (complexity (snd c), excess (snd c)))
           (filter (\<lambda>c. excess (snd c) \<le> excessThreshold + 1 / 100) (sortByExcess refs)))"

definition firstSimpleOf :: "rat \<Rightarrow> Ref list \<Rightarrow> Ref" where
  "firstSimpleOf target refs =
     (let simpleCandidates = simpleCandidatesOf target refs
      in if length simpleCandidates > 0 then hd simpleCandidates
         else hd (sort_key (\<lambda>c. complexity (snd c)) (sortByExcess refs)))"

definition bestSimpleOf :: "rat \<Rightarrow> Ref list \<Rightarrow> Ref" where
  "bestSimpleOf target refs =
     (let simpleCandidates = simpleCandidatesOf target refs;
          bestSimple = firstSimpleOf target refs
      in if sameObject bestSimple (bestPrecisionOf refs) \<and> length simpleCandidates > 1
         then simpleCandidates ! 1 else bestSimple)"

definition bestBalancedOf :: "rat \<Rightarrow> Ref list \<Rightarrow> Ref option" where
  "bestBalancedOf target refs =
     find (balancedTest (bestPrecisionOf refs) (bestSimpleOf target refs)) (sortByExcess refs)"

text \<open>The rest of \<open>searchOptimalCombination\<close>, on a non-empty list of candidates: the three
  writes to \<open>type\<close> in program order, the list \<open>solutions\<close> compiled from the picks, and
  the result.\<close>

definition finalStore :: "rat \<Rightarrow> Ref list \<Rightarrow> (nat \<rightharpoonup> SolutionType)" where
  "finalStore target refs =
     (let store1 = setType (bestPrecisionOf refs) precision Map.empty;
          store2 = setType (bestSimpleOf target refs) simple store1
      in case bestBalancedOf target refs of
           None \<Rightarrow> store2
         | Some b \<Rightarrow> setType b balanced store2)"

definition pickedRefs :: "rat \<Rightarrow> Ref list \<Rightarrow> Ref list" where
  "pickedRefs target refs =
     (let bestPrecision = bestPrecisionOf refs;
          bestSimple = bestSimpleOf target refs
      in [bestPrecision]
         @ (if \<not> sameObject bestSimple bestPrecision then [bestSimple] else [])
         @ (case bestBalancedOf target refs of
              None \<Rightarrow> []
            | Some b \<Rightarrow> if \<not> sameObject b bestPrecision \<and> \<not> sameObject b bestSimple
                       then [b] else []))"

definition rankCandidates :: "rat \<Rightarrow> Solution list \<Rightarrow> SearchResult" where
  "rankCandidates target cands =
     (let refs = List.enumerate 0 cands
      in SuccessResult (map (deref (finalStore target refs)) (pickedRefs target refs)))"

text \<open>\<open>searchOptimalCombination(params)\<close>.  With no battery type the loop runs over
  \<open>n = 0..2\<close> and every call finds no usable ratio, so no candidate is found.\<close>

definition searchOptimalCombination :: "Params \<Rightarrow> SearchResult" where
  "searchOptimalCombination params =
     (let P_batt_needed = D params - P_base params in
      if P_batt_needed \<le> 0 then
        BaseResult [\<lparr>type = Some base, success = False, batteryCount = 0, batteries = [],
                     totalPower = P_base params, excess = P_base params - D params,
                     totalRatio = None, complexity = 0\<rparr>]
      else if Params.batteries params = [] then FailureResult noSolutionMessage []
      else let cands = allCandidates params in
           if cands = [] then FailureResult noSolutionMessage []
           else rankCandidates (D params) cands)"

section \<open>Network description\<close>

text \<open>The description returned by \<open>constructSplitterNetwork\<close> is a text, one line per
  stage or outlet.  A line is modelled by its content; the indent counts the two-space
  units of \<open>"  ".repeat(depth)\<close>, the flag says that the line starts with the closing
  corner prefix (the last outlet) rather than the tee prefix, and the number is the outlet
  number printed after the word for "outlet".
  \<^item> \<open>NoNetworkLine\<close>: the one-line text "no splitter network needed";
  \<^item> \<open>ReturnLine i\<close>: corner prefix and "return flow";
  \<^item> \<open>SplitterLine i k\<close>: "[two-outlet splitter]" for \<open>k = 2\<close>, "[three-outlet splitter]"
    for \<open>k = 3\<close>;
  \<^item> \<open>OutletLine i last k share\<close>: "outlet k (share):", or "outlet k:" without a share;
  \<^item> \<open>OutletReturnLine i last k\<close>: "outlet k -> return flow";
  \<^item> \<open>DirectBatteryLine i f\<close>: "-> f -> battery group";
  \<^item> \<open>BatteryLine i f\<close>: "-> battery group (ratio: f)";
  \<^item> \<open>ReturnArrowLine i\<close>: "-> return flow".\<close>

datatype Line =
    NoNetworkLine
  | ReturnLine nat
  | SplitterLine nat nat
  | OutletLine nat bool nat "string option"
  | OutletReturnLine nat bool nat
  | DirectBatteryLine nat string
  | BatteryLine nat string
  | ReturnArrowLine nat

text \<open>\<open>findSplitSequence(targetRatio, inputFlow)\<close>.  The \<open>break\<close> leaves the inner loop only,
  so the pair kept is the one of the last \<open>i\<close> with a match, with the first matching \<open>j\<close>
  of that \<open>i\<close>; \<open>(0, 0)\<close> when nothing matches.\<close>

definition findSplitSequence :: "rat \<Rightarrow> rat \<Rightarrow> Split list" where
  "findSplitSequence targetRatio inputFlow =
     (let (a, b) = fold (\<lambda>i ab. case find (\<lambda>j. \<bar>pow_value i j - targetRatio\<bar> < 1 / 10 ^ 10) [0..<11] of
                                    Some j \<Rightarrow> (i, j)
                                  | None \<Rightarrow> ab)
                        [0..<11] (0, 0)
      in replicate b \<lparr>Split.type = splitter, outlets = 3, targetOutlet = 0\<rparr>
         @ replicate a \<lparr>Split.type = splitter, outlets = 2, targetOutlet = 0\<rparr>)"

text \<open>One round of the loop \<open>for (let i = 0; i < split.outlets; i++)\<close> of \<open>constructBranch\<close>,
  on the pair of the description so far and \<open>currentIndent\<close>.\<close>

definition outletStep :: "Split \<Rightarrow> nat \<Rightarrow> Line list \<times> nat \<Rightarrow> Line list \<times> nat" where
  "outletStep split i st =
     (case st of (desc, currentIndent) \<Rightarrow>
        if i = targetOutlet split
        then (desc @ [OutletLine currentIndent (\<not> i < outlets split - 1) (i + 1) None],
              currentIndent + 1)
        else (desc @ [OutletReturnLine currentIndent (\<not> i < outlets split - 1) (i + 1)],
              currentIndent))"

text \<open>One round of \<open>sequence.forEach\<close> of \<open>constructBranch\<close>.\<close>

definition splitStep :: "string \<Rightarrow> Split \<Rightarrow> Line list \<times> nat \<Rightarrow> Line list \<times> nat" where
  "splitStep fr split st =
     (case st of (desc, currentIndent) \<Rightarrow>
        case Split.type split of
          battery \<Rightarrow> (desc @ [BatteryLine currentIndent fr], currentIndent)
        | return \<Rightarrow> (desc @ [ReturnArrowLine currentIndent], currentIndent)
        | splitter \<Rightarrow>
            fold (outletStep split) [0..<outlets split]
              (desc @ [SplitterLine currentIndent (if outlets split = 2 then 2 else 3)],
               currentIndent))"

text \<open>\<open>constructBranch(ratio, inputFlow, depth)\<close>; it returns \<open>{ description }\<close> only.\<close>

definition constructBranch :: "Ratio \<Rightarrow> rat \<Rightarrow> nat \<Rightarrow> Line list" where
  "constructBranch r inputFlow depth0 =
     (let sequence = findSplitSequence (value r) inputFlow in
      if length sequence = 0 then [DirectBatteryLine depth0 (fraction r)]
      else case fold (splitStep (fraction r)) sequence ([], depth0) of
             (desc, currentIndent) \<Rightarrow> desc @ [BatteryLine currentIndent (fraction r)])"

text \<open>The node objects of the visualizer (\<open>src/visualizer.js\<close>): the tag \<open>type\<close> is the
  constructor, \<open>children\<close> is the array of child nodes (always empty for a battery and
  for a return node, and left out there).\<close>

datatype NetworkNode =
    MainNode (children: "NetworkNode list")
  | SplitterNode (declared: nat) (children: "NetworkNode list")
  | BatteryNode (label: string) (ratioText: string) (dutyText: string)
  | ReturnNode

text \<open>The object returned by \<open>buildNetworkTree\<close>: \<open>nodes\<close> is \<open>None\<close> where the object has
  no such field.\<close>

record NetworkResult =
  description :: "Line list"
  nodes :: "NetworkNode list option"

text \<open>The groups of the loop \<open>for (i = 0; i < n; i += perGroup) groups.push(ratios.slice(i,
  Math.min(i + perGroup, n)))\<close>.\<close>

fun chunks :: "nat \<Rightarrow> 'a list \<Rightarrow> 'a list list" where
  "chunks k xs = (if k = 0 \<or> xs = [] then [] else take k xs # chunks k (drop k xs))"

declare chunks.simps [simp del]

lemma chunks_length: "g \<in> set (chunks k xs) \<Longrightarrow> length g \<le> k"
proof (induction k xs rule: chunks.induct)
  case (1 k xs)
  then show ?case
    by (subst (asm) (2) chunks.simps) (auto split: if_splits)
qed

lemma ceil_third_less:
  assumes "4 \<le> n"
  shows "nat \<lceil>rat_of_nat n / 3\<rceil> < n"
proof -
  have "rat_of_nat n / 3 \<le> of_int (int n) - 1"
    using assms by simp
  then have "\<lceil>rat_of_nat n / 3\<rceil> < int n"
    by (simp only: ceiling_less_iff)
  then show ?thesis by arith
qed

text \<open>\<open>buildNetworkTree(ratios, totalFlow, depth)\<close>.  The local \<open>nodes\<close> is created empty
  and returned as it is.\<close>

function buildNetworkTree :: "Ratio list \<Rightarrow> rat \<Rightarrow> nat \<Rightarrow> NetworkResult" where
  "buildNetworkTree ratios totalFlow depth0 =
     (if length ratios = 0 then \<lparr>description = [ReturnLine depth0], nodes = Some []\<rparr>
      else if length ratios = 1
      then \<lparr>description = constructBranch (ratios ! 0) totalFlow depth0, nodes = None\<rparr>
      else if length ratios = 2
      then \<lparr>description =
               [SplitterLine depth0 3, OutletLine depth0 False 1 (Some ''1/3'')]
               @ constructBranch (ratios ! 0) (totalFlow / 3) (depth0 + 2)
               @ [OutletLine depth0 False 2 (Some ''1/3'')]
               @ constructBranch (ratios ! 1) (totalFlow / 3) (depth0 + 2)
               @ [OutletReturnLine depth0 True 3],
             nodes = Some []\<rparr>
      else if length ratios = 3
      then \<lparr>description =
               [SplitterLine depth0 3]
               @ concat (map (\<lambda>i. OutletLine depth0 (\<not> i < 2) (i + 1) (Some ''1/3'')
                                   # constructBranch (ratios ! i) (totalFlow / 3) (depth0 + 2))
                             [0..<3]),
             nodes = Some []\<rparr>
      else
        (let perGroup = nat \<lceil>rat_of_nat (length ratios) / 3\<rceil>;
             groups = chunks perGroup ratios
         in \<lparr>description =
                [SplitterLine depth0 3]
                @ concat (map (\<lambda>(idx, g).
                                 if length g = 0
                                 then [OutletReturnLine depth0 (\<not> idx < length groups - 1) (idx + 1)]
                                 else OutletLine depth0 (\<not> idx < length groups - 1) (idx + 1)
                                        (Some (''1/'' @ show_nat (length groups)))
                                      # description (buildNetworkTree g
                                          (totalFlow / rat_of_nat (length groups)) (depth0 + 2)))
                              (List.enumerate 0 groups))
                @ map (\<lambda>i. OutletReturnLine depth0 True (i + 1)) [length groups..<3],
              nodes = Some []\<rparr>))"
  by pat_completeness auto
termination
proof (relation "measure (\<lambda>(ratios, totalFlow, depth0). length ratios)", goal_cases)
  case 1
  show ?case by simp
next
  case (2 ratios totalFlow depth0 perGroup groups idxg idx g)
  from 2 have "g \<in> set (chunks perGroup ratios)"
    by (auto simp: in_set_enumerate_eq)
  then have "length g \<le> perGroup" by (rule chunks_length)
  moreover from 2 have "length ratios \<noteq> 0" "length ratios \<noteq> 1"
      "length ratios \<noteq> 2" "length ratios \<noteq> 3"
    by simp_all
  then have "4 \<le> length ratios"
    by arith
  then have "nat \<lceil>rat_of_nat (length ratios) / 3\<rceil> < length ratios"
    by (rule ceil_third_less)
  with 2 have "perGroup < length ratios"
    by simp
  ultimately show ?case by simp
qed

declare buildNetworkTree.simps [simp del]

text \<open>\<open>constructSplitterNetwork(solution)\<close>.  \<open>solution.totalRatio || ...\<close> takes the sum of
  the ratio values when the field is absent or zero; \<open>depth\<close> defaults to \<open>0\<close>.\<close>

definition constructSplitterNetwork :: "Solution \<Rightarrow> NetworkResult" where
  "constructSplitterNetwork solution =
     (if \<not> success solution \<or> batteryCount solution = 0
      then \<lparr>description = [NoNetworkLine], nodes = Some []\<rparr>
      else let ratios = map ratio (Solution.batteries solution);
               totalRatio = (case totalRatio solution of
                               None \<Rightarrow> sumValues ratios
                             | Some t \<Rightarrow> if t = 0 then sumValues ratios else t)
           in buildNetworkTree ratios totalRatio 0)"

section \<open>Visualizer tree\<close>

text \<open>\<open>SplitterVisualizer.buildBatteryBranch(battery, index)\<close>: a battery leaf, wrapped in
  one two-outlet splitter per round of \<open>for (i = 1; i < Math.min(depth, 3); i++)\<close> when
  the depth is above \<open>1\<close>.  The duty text is \<open>(battery.dutyCycle * 100).toFixed(1) + '%'\<close>.\<close>

definition buildBatteryBranch :: "Assignment \<Rightarrow> nat \<Rightarrow> NetworkNode" where
  "buildBatteryBranch b index =
     (let r = ratio b;
          leaf = BatteryNode (Assignment.name b) (fraction r)
                   (toFixed 1 (dutyCycle b * 100) @ ''%'')
      in if depth r \<le> 1 then leaf
         else ((\<lambda>current. SplitterNode 2 [current, ReturnNode])
                 ^^ (the_enat (min (depth r) 3) - 1)) leaf)"

lemma chunks_count: "0 < k \<Longrightarrow> length (chunks k xs) * k < length xs + k"
proof (induction k xs rule: chunks.induct)
  case (1 k xs)
  show ?case
  proof (cases "xs = []")
    case True
    with 1 show ?thesis by (simp add: chunks.simps)
  next
    case False
    with 1 have ih: "length (chunks k (drop k xs)) * k < length (drop k xs) + k"
      by simp
    have unfold: "length (chunks k xs) = Suc (length (chunks k (drop k xs)))"
      using False 1(2) by (subst chunks.simps) simp
    show ?thesis
    proof (cases "length xs \<le> k")
      case True
      then have "chunks k (drop k xs) = []"
        by (simp add: chunks.simps)
      with unfold False show ?thesis by simp
    next
      case False
      with ih unfold show ?thesis by simp
    qed
  qed
qed

text \<open>The grouping of \<open>buildSplitterTree\<close>: slices of three nodes, a slice of one node
  kept as it is, a longer slice put under a splitter of its own.\<close>

definition groupNodes :: "NetworkNode list \<Rightarrow> NetworkNode list" where
  "groupNodes ns =
     map (\<lambda>g. if length g = 1 then g ! 0 else SplitterNode (length g) g) (chunks 3 ns)"

lemma groupNodes_shorter: "3 < length ns \<Longrightarrow> length (groupNodes ns) < length ns"
  using chunks_count [of 3 ns] by (simp add: groupNodes_def)

text \<open>\<open>SplitterVisualizer.buildSplitterTree(nodes)\<close>.\<close>

function buildSplitterTree :: "NetworkNode list \<Rightarrow> NetworkNode" where
  "buildSplitterTree ns =
     (if length ns \<le> 3 then SplitterNode (length ns) ns
      else let groups = groupNodes ns
           in if length groups \<le> 3 then SplitterNode (length groups) groups
              else buildSplitterTree groups)"
  by pat_completeness auto
termination
  by (relation "measure length") (auto simp: groupNodes_shorter)

declare buildSplitterTree.simps [simp del]

text \<open>\<open>SplitterVisualizer.buildVisualizationTree(solution)\<close>.\<close>

definition buildVisualizationTree :: "Solution \<Rightarrow> NetworkNode" where
  "buildVisualizationTree solution =
     (let bs = Solution.batteries solution in
      if length bs = 0 then MainNode []
      else MainNode [buildSplitterTree
                       (map (\<lambda>(idx, b). buildBatteryBranch b idx) (List.enumerate 0 bs)
                        @ [ReturnNode])])"

section \<open>Observations on descriptions and trees\<close>

text \<open>The fraction strings of the battery lines of a description, in text order.\<close>

fun batteryText :: "Line \<Rightarrow> string list" where
  "batteryText (BatteryLine i f) = [f]"
| "batteryText (DirectBatteryLine i f) = [f]"
| "batteryText _ = []"

definition batteryTexts :: "Line list \<Rightarrow> string list" where
  "batteryTexts d = concat (map batteryText d)"

text \<open>The outlet count a splitter line announces, and the lines that print one outlet.\<close>

fun announced :: "Line \<Rightarrow> nat" where
  "announced (SplitterLine i k) = k"
| "announced _ = 0"

fun printsOutlet :: "Line \<Rightarrow> nat" where
  "printsOutlet (OutletLine i l k s) = 1"
| "printsOutlet (OutletReturnLine i l k) = 1"
| "printsOutlet _ = 0"

definition outletsConsistent :: "Line list \<Rightarrow> bool" where
  "outletsConsistent d =
     (list_all (\<lambda>l. announced l \<in> {0, 2, 3}) d \<and>
      sum_list (map printsOutlet d) = sum_list (map announced d))"

text \<open>The ratio texts of the battery leaves of a tree, left to right, and the test that
  every splitter node has as many children as its \<open>outlets\<close> field says, two or three.\<close>

fun batteryLeaves :: "NetworkNode \<Rightarrow> string list" where
  "batteryLeaves (MainNode cs) = concat (map batteryLeaves cs)"
| "batteryLeaves (SplitterNode k cs) = concat (map batteryLeaves cs)"
| "batteryLeaves (BatteryNode l f d) = [f]"
| "batteryLeaves ReturnNode = []"

fun splittersExact :: "NetworkNode \<Rightarrow> bool" where
  "splittersExact (MainNode cs) = list_all splittersExact cs"
| "splittersExact (SplitterNode k cs) =
     (length cs = k \<and> (k = 2 \<or> k = 3) \<and> list_all splittersExact cs)"
| "splittersExact (BatteryNode l f d) = True"
| "splittersExact ReturnNode = True"

text \<open>The battery leaves of what \<open>constructSplitterNetwork\<close> returns as \<open>nodes\<close>: none where
  the field is absent.\<close>

definition returnedLeaves :: "NetworkResult \<Rightarrow> string list" where
  "returnedLeaves r = (case nodes r of None \<Rightarrow> [] | Some ns \<Rightarrow> concat (map batteryLeaves ns))"

section \<open>The optimizer as the specification words it\<close>

text \<open>The specification's reading of the optimizer, for comparison with \<open>assign\<close>: an
  assignment gives one battery type to each ratio, types may repeat, and the duty cycle
  and the power of each entry follow the formulas of the data model.\<close>

definition specAssignment :: "rat \<Rightarrow> Ratio \<Rightarrow> BatteryType \<Rightarrow> Assignment" where
  "specAssignment supplyRate r batteryType =
     \<lparr>name = BatteryType.name batteryType, ratio = r,
      dutyCycle = min 1 (supplyRate * value r / consume batteryType),
      power = BatteryType.power batteryType * min 1 (supplyRate * value r / consume batteryType),
      typeData = batteryType\<rparr>"

fun specCombinations :: "rat \<Rightarrow> BatteryType list \<Rightarrow> Ratio list \<Rightarrow> Assignment list list" where
  "specCombinations supplyRate batteryTypes [] = [[]]"
| "specCombinations supplyRate batteryTypes (r # rs) =
     concat (map (\<lambda>batteryType. map ((#) (specAssignment supplyRate r batteryType))
                                  (specCombinations supplyRate batteryTypes rs))
                 batteryTypes)"

definition specTotalPower :: "Assignment list \<Rightarrow> rat" where
  "specTotalPower c = sum_list (map Assignment.power c)"

definition specFeasible :: "rat \<Rightarrow> Assignment list \<Rightarrow> bool" where
  "specFeasible targetPower c = (specTotalPower c \<ge> targetPower - 1 / 100)"

text \<open>What the two variables of the closure hold after the combinations \<open>seen\<close>.\<close>

definition bestAmong :: "rat \<Rightarrow> Assignment list list \<Rightarrow> AssignState \<Rightarrow> bool" where
  "bestAmong T seen st =
     (case bestResult st of
        None \<Rightarrow> minExcess st = None \<and> (\<forall>c \<in> set seen. \<not> specFeasible T c)
      | Some res \<Rightarrow>
          minExcess st = Some (totalGenerated res - T) \<and>
          AssignResult.batteries res \<in> set seen \<and>
          totalGenerated res = specTotalPower (AssignResult.batteries res) \<and>
          specFeasible T (AssignResult.batteries res) \<and>
          (\<forall>c \<in> set seen. specFeasible T c \<longrightarrow> totalGenerated res - T \<le> specTotalPower c - T))"

text \<open>The balanced pick as the specification words it: the first candidate that passes
  the test in the order the candidates were merged, before any sorting.\<close>

definition specBalanced :: "rat \<Rightarrow> Ref list \<Rightarrow> Ref option" where
  "specBalanced target refs =
     find (balancedTest (bestPrecisionOf refs) (bestSimpleOf target refs)) refs"

section \<open>Concrete inputs\<close>

text \<open>One battery type and a catalog of depth \<open>1\<close> (the ratios \<open>1\<close>, \<open>1/2\<close>, \<open>1/3\<close>), with a
  demand that half a battery covers, a demand far below one battery, a demand that the
  base power covers, and a demand that the only battery count in range, three, cannot
  cover (three batteries on \<open>1/3\<close> each give \<open>100\<close> of the \<open>250\<close> asked for).\<close>

definition unitBattery :: "rat \<Rightarrow> BatteryType" where
  "unitBattery w = \<lparr>BatteryType.name = ''standard'', BatteryType.power = w, consume = 1\<rparr>"

definition smallParams :: Params where
  "smallParams = \<lparr>D = 50, P_base = 0, Params.batteries = [unitBattery 100], R = 1, maxDepth = 1\<rparr>"

definition surplusParams :: Params where
  "surplusParams = \<lparr>D = 500, P_base = 0, Params.batteries = [unitBattery 1000], R = 1, maxDepth = 1\<rparr>"

definition coveredParams :: Params where
  "coveredParams = \<lparr>D = 100, P_base = 200, Params.batteries = [unitBattery 100], R = 1, maxDepth = 1\<rparr>"

definition hopelessParams :: Params where
  "hopelessParams = \<lparr>D = 250, P_base = 0, Params.batteries = [unitBattery 100], R = 1, maxDepth = 1\<rparr>"

text \<open>A battery type that consumes so little that no ratio of the catalog of depth \<open>1\<close> is
  usable: every ratio is above \<open>consume / R + 0.0001 = 0.0011\<close>.\<close>

definition thriftyBattery :: BatteryType where
  "thriftyBattery =
     \<lparr>BatteryType.name = ''thrifty'', BatteryType.power = 100, consume = 1 / 1000\<rparr>"

definition starvedParams :: Params where
  "starvedParams = \<lparr>D = 50, P_base = 0, Params.batteries = [thriftyBattery], R = 1, maxDepth = 1\<rparr>"

text \<open>The scenario of the specification: a demand of \<open>1100\<close>, one battery type of power
  \<open>1100\<close> consuming \<open>0.025\<close>, supply rate \<open>1\<close>, depth \<open>5\<close>.\<close>

definition scenarioBattery :: BatteryType where
  "scenarioBattery =
     \<lparr>BatteryType.name = ''standard'', BatteryType.power = 1100, consume = 25 / 1000\<rparr>"

definition scenarioParams :: Params where
  "scenarioParams =
     \<lparr>D = 1100, P_base = 0, Params.batteries = [scenarioBattery], R = 1, maxDepth = 5\<rparr>"

text \<open>A solution as the search builds it: the second candidate with two batteries for
  \<open>smallParams\<close>.\<close>

definition pairSolution :: Solution where
  "pairSolution =
     searchForNBatteries 2 smallParams (generateValidRatios (maxDepth smallParams)) ! 1"

section \<open>Properties of the ratio catalog\<close>

lemma set_fold_set_add: "set (fold set_add xs s) = set s \<union> set xs"
  by (induction xs arbitrary: s) (auto simp: set_add_def)

lemma distinct_fold_set_add: "distinct s \<Longrightarrow> distinct (fold set_add xs s)"
  by (induction xs arbitrary: s) (auto simp: set_add_def)

lemma loop_values_form:
  assumes "v \<in> set (loop_values md)"
  shows "\<exists>a b. a + b \<le> md \<and> v = pow_value a b"
proof -
  from assms obtain a b where "a < Suc md" "b < Suc (md - a)" "v = pow_value a b"
    unfolding loop_values_def by (auto simp del: upt_Suc)
  then have "a + b \<le> md" by arith
  with \<open>v = pow_value a b\<close> show ?thesis by blast
qed

lemma catalog_values:
  "map value (generateValidRatios md) =
     sort_key uminus (fold set_add (loop_values md) [1])"
proof -
  have ins: "map value (insort_key (\<lambda>r. - value r) (mkRatio x) rs)
      = insort_key uminus x (map value rs)" for x rs
    by (induction rs) (simp_all add: mkRatio_def)
  have "map value (sort_key (\<lambda>r. - value r) (map mkRatio xs)) = sort_key uminus xs" for xs
    by (induction xs) (simp_all add: ins)
  then show ?thesis by (simp add: generateValidRatios_def)
qed

lemma pow_value_unfold: "pow_value a b = 1 / (2 ^ a * 3 ^ b)"
  by (simp add: pow_value_def power_one_over)

lemma filter_one_of_distinct:
  "distinct (map f xs) \<Longrightarrow> y \<in> f ` set xs \<Longrightarrow> length (filter (\<lambda>x. f x = y) xs) = 1"
proof (induction xs)
  case Nil
  then show ?case by simp
next
  case (Cons x xs)
  show ?case
  proof (cases "f x = y")
    case True
    from Cons.prems(1) have "f x \<notin> f ` set xs"
      by simp
    with True have "\<forall>z \<in> set xs. f z \<noteq> y"
      by blast
    then have "filter (\<lambda>x. f x = y) xs = []"
      by (simp add: filter_empty_conv)
    with True show ?thesis by simp
  next
    case False
    with Cons show ?thesis by auto
  qed
qed

lemma catalog_values_set:
  "set (map value (generateValidRatios md)) = insert 1 (set (loop_values md))"
  by (simp only: catalog_values set_sort set_fold_set_add) simp

lemma catalog_values_distinct: "distinct (map value (generateValidRatios md))"
  by (simp only: catalog_values distinct_sort) (simp add: distinct_fold_set_add)

lemma catalog_descending:
  "sorted_wrt (\<lambda>x y. value x > value y) (generateValidRatios md)"
proof -
  let ?vs = "map value (generateValidRatios md)"
  have "sorted (map uminus ?vs)"
    by (simp only: catalog_values sorted_sort_key)
  moreover have "distinct (map uminus ?vs)"
    using catalog_values_distinct [of md] by (simp add: distinct_map inj_on_def)
  ultimately have "sorted_wrt (<) (map uminus ?vs)"
    by (simp add: strict_sorted_iff)
  then show ?thesis
    by (simp add: sorted_wrt_map)
qed

text \<open>
  Claim C5.  For every \<open>maxDepth\<close>, every ratio of \<open>generateValidRatios(maxDepth)\<close> has
  the value \<open>2^-a * 3^-b\<close> for some \<open>a\<close>, \<open>b\<close> with \<open>a + b \<le> maxDepth\<close>; the value \<open>1\<close>
  occurs exactly once; and the sequence is strictly descending by value.
\<close>

theorem generateValidRatios_catalog:
  "(\<forall>r \<in> set (generateValidRatios md). \<exists>a b. a + b \<le> md \<and> value r = 1 / (2 ^ a * 3 ^ b))
   \<and> length (filter (\<lambda>r. value r = 1) (generateValidRatios md)) = 1
   \<and> sorted_wrt (\<lambda>x y. value x > value y) (generateValidRatios md)"
proof (intro conjI ballI)
  fix r
  assume "r \<in> set (generateValidRatios md)"
  then have "value r \<in> set (map value (generateValidRatios md))"
    by simp
  then have "value r = 1 \<or> value r \<in> set (loop_values md)"
    by (simp only: catalog_values_set) simp
  then show "\<exists>a b. a + b \<le> md \<and> value r = 1 / (2 ^ a * 3 ^ b)"
  proof
    assume "value r = 1"
    then have "0 + 0 \<le> md \<and> value r = 1 / (2 ^ 0 * 3 ^ 0)" by simp
    then show ?thesis by blast
  next
    assume "value r \<in> set (loop_values md)"
    then show ?thesis
      using loop_values_form [of "value r" md] by (auto simp: pow_value_unfold)
  qed
next
  have "1 \<in> value ` set (generateValidRatios md)"
    using catalog_values_set [of md] by auto
  with catalog_values_distinct [of md]
  show "length (filter (\<lambda>r. value r = 1) (generateValidRatios md)) = 1"
    by (rule filter_one_of_distinct)
next
  show "sorted_wrt (\<lambda>x y. value x > value y) (generateValidRatios md)"
    by (rule catalog_descending)
qed

theorem generateValidRatios_catalog_witness:
  "length (filter (\<lambda>r. value r = 1) (generateValidRatios 2)) = 1
   \<and> sorted_wrt (\<lambda>x y. value x > value y) (generateValidRatios 2)
   \<and> map value (generateValidRatios 1) = [1, 1 / 2, 1 / 3]"
proof -
  have "map value (generateValidRatios 1) = [1, 1 / 2, 1 / 3]"
    by (simp add: catalog_values loop_values_def set_add_def pow_value_def)
  with generateValidRatios_catalog [of 2] show ?thesis
    by blast
qed

section \<open>The degenerate case and the failure value\<close>

text \<open>
  Claim C6.  When \<open>D \<le> P_base\<close>, \<open>searchOptimalCombination\<close> returns the base result
  with exactly one solution: type \<open>base\<close>, no battery, excess \<open>P_base - D\<close>, complexity
  \<open>0\<close>.  The result does not depend on the batteries, the supply rate or the depth: no
  search takes part in it.
\<close>

theorem base_solution_when_covered:
  assumes "D p \<le> P_base p"
  shows "searchOptimalCombination p =
           BaseResult [\<lparr>type = Some base, success = False, batteryCount = 0, batteries = [],
                        totalPower = P_base p, excess = P_base p - D p,
                        totalRatio = None, complexity = 0\<rparr>]"
  using assms by (simp add: searchOptimalCombination_def)

theorem base_solution_when_covered_witness:
  "searchOptimalCombination coveredParams =
     BaseResult [\<lparr>type = Some base, success = False, batteryCount = 0, batteries = [],
                  totalPower = 200, excess = 100, totalRatio = None, complexity = 0\<rparr>]"
  using base_solution_when_covered [of coveredParams]
  by (simp add: coveredParams_def)

lemma rankCandidates_nonempty:
  "rankCandidates target cands = SuccessResult sols \<Longrightarrow> sols \<noteq> []"
  by (auto simp: rankCandidates_def pickedRefs_def Let_def)

text \<open>
  Claim C8.  When \<open>D > P_base\<close> and no battery count of the searched range yields a
  candidate, \<open>searchOptimalCombination\<close> returns the failure value with its message and
  an empty solution list; and a success result never has an empty solution list.  The
  source has no \<open>throw\<close>; on this path it returns before any element of \<open>allCandidates\<close>
  is read, and the model answers every input by one of the three result values.
\<close>

theorem failure_when_no_candidate:
  assumes "P_base p < D p"
  shows "((\<forall>n \<in> set [minBatteries p..searchLimit p].
              searchForNBatteries (nat n) p (generateValidRatios (maxDepth p)) = [])
            \<longrightarrow> searchOptimalCombination p = FailureResult noSolutionMessage [])
         \<and> (\<forall>sols. searchOptimalCombination p = SuccessResult sols \<longrightarrow> sols \<noteq> [])"
proof (intro conjI impI allI)
  assume "\<forall>n \<in> set [minBatteries p..searchLimit p].
            searchForNBatteries (nat n) p (generateValidRatios (maxDepth p)) = []"
  then have "allCandidates p = []"
    by (simp add: allCandidates_def)
  with assms show "searchOptimalCombination p = FailureResult noSolutionMessage []"
    by (simp add: searchOptimalCombination_def)
next
  fix sols
  assume "searchOptimalCombination p = SuccessResult sols"
  then show "sols \<noteq> []"
    by (auto simp: searchOptimalCombination_def Let_def rankCandidates_nonempty
             split: if_splits)
qed

section \<open>The assignment optimizer returns a best feasible assignment\<close>

lemma mkAssignment_spec: "mkAssignment S r bt = specAssignment S r bt"
  by (simp add: mkAssignment_def specAssignment_def Let_def)


lemma specCombinations_shape:
  "c \<in> set (specCombinations S bts rs) \<Longrightarrow>
     map ratio c = rs \<and>
     list_all (\<lambda>a. typeData a \<in> set bts \<and> a = specAssignment S (ratio a) (typeData a)) c"
proof (induction rs arbitrary: c)
  case Nil
  then show ?case by simp
next
  case (Cons r rs)
  then obtain bt c' where "bt \<in> set bts" "c' \<in> set (specCombinations S bts rs)"
      "c = specAssignment S r bt # c'"
    by auto
  with Cons.IH [of c'] show ?case
    by (simp add: specAssignment_def)
qed

lemma fold_concat_map: "fold f (concat (map g xs)) st = fold (\<lambda>x. fold f (g x)) xs st"
  by (induction xs arbitrary: st) simp_all

text \<open>The closure visits the combinations of the specification in their list order.\<close>

lemma assign_visits_combinations:
  "assign bts T S rs cur p st =
     fold (\<lambda>c st'. assign bts T S [] (cur @ c) (p + specTotalPower c) st')
          (specCombinations S bts rs) st"
proof (induction rs arbitrary: cur p st)
  case Nil
  show ?case by (simp add: specTotalPower_def Let_def)
next
  case (Cons r rs)
  let ?leaf = "\<lambda>cur p c st'. assign bts T S [] (cur @ c) (p + specTotalPower c) st'"
  let ?a = "specAssignment S r"
  let ?C = "specCombinations S bts rs"
  have "assign bts T S (r # rs) cur p st =
          fold (\<lambda>bt st'. assign bts T S rs (cur @ [?a bt]) (p + Assignment.power (?a bt)) st')
            bts st"
    by (simp add: mkAssignment_spec Let_def)
  also have "\<dots> = fold (\<lambda>bt. fold (?leaf (cur @ [?a bt]) (p + Assignment.power (?a bt))) ?C) bts st"
    by (simp only: Cons.IH)
  also have "\<dots> = fold (\<lambda>bt. fold (?leaf cur p) (map ((#) (?a bt)) ?C)) bts st"
    by (simp only: fold_map comp_def specTotalPower_def list.map sum_list.Cons add.assoc
          append_assoc append_Cons append_Nil)
  also have "\<dots> = fold (?leaf cur p) (concat (map (\<lambda>bt. map ((#) (?a bt)) ?C) bts)) st"
    by (simp only: fold_concat_map)
  finally show ?case
    by (simp only: specCombinations.simps)
qed

lemma bestAmong_leaf:
  assumes "bestAmong T seen st"
  shows "bestAmong T (seen @ [c]) (assign bts T S [] c (specTotalPower c) st)"
proof (cases "bestResult st")
  case None
  with assms show ?thesis
    by (auto simp: bestAmong_def specFeasible_def Let_def)
next
  case (Some res)
  with assms show ?thesis
    by (auto simp: bestAmong_def specFeasible_def Let_def)
qed

lemma bestAmong_fold:
  "bestAmong T seen st \<Longrightarrow>
     bestAmong T (seen @ cs)
       (fold (\<lambda>c st'. assign bts T S [] c (specTotalPower c) st') cs st)"
proof (induction cs arbitrary: seen st)
  case Nil
  then show ?case by simp
next
  case (Cons c cs)
  from Cons.prems have "bestAmong T (seen @ [c]) (assign bts T S [] c (specTotalPower c) st)"
    by (rule bestAmong_leaf)
  from Cons.IH [OF this] show ?case by simp
qed

lemma findBest_bestAmong:
  "bestAmong T (specCombinations S bts rs)
     (assign bts T S rs [] 0 \<lparr>bestResult = None, minExcess = None\<rparr>)"
proof -
  have "bestAmong T [] \<lparr>bestResult = None, minExcess = None\<rparr>"
    by (simp add: bestAmong_def)
  from bestAmong_fold [OF this, of "specCombinations S bts rs" bts S] show ?thesis
    by (subst assign_visits_combinations) (simp del: assign.simps(1))
qed



section \<open>Every candidate is a selection of usable ratios\<close>


lemma findBest_result:
  assumes "findBestVariableAssignment rs bts T S = Some res"
  shows "map ratio (AssignResult.batteries res) = rs \<and> T - 1 / 100 \<le> totalGenerated res"
proof -
  from findBest_bestAmong [of T S bts rs] assms
  have "AssignResult.batteries res \<in> set (specCombinations S bts rs)"
    and "totalGenerated res = specTotalPower (AssignResult.batteries res)"
    and "specFeasible T (AssignResult.batteries res)"
    by (simp_all add: bestAmong_def findBestVariableAssignment_def)
  then show ?thesis
    using specCombinations_shape [of "AssignResult.batteries res" S bts rs]
    by (simp add: specFeasible_def)
qed

text \<open>A candidate pushed by \<open>searchCombinations\<close> extends \<open>currentRatios\<close> by the usable
  ratios at \<open>k\<close> non-decreasing indices from \<open>index\<close> on; the sum of all its ratio values
  is within the bound, and its total power reaches the demand up to \<open>0.01\<close>.\<close>

lemma searchCombinations_candidate:
  "c \<in> set (searchCombinations p us n k idx cur) \<Longrightarrow>
     \<exists>js. length js = k \<and> sorted js \<and> (\<forall>j \<in> set js. idx \<le> j \<and> j < length us) \<and>
          map ratio (Solution.batteries c) = cur @ map ((!) us) js \<and>
          batteryCount c = n \<and>
          sumValues (cur @ map ((!) us) js) \<le> 1 + 1 / 10 ^ 10 \<and>
          D p - 1 / 100 \<le> totalPower c"
proof (induction k arbitrary: idx cur)
  case 0
  let ?found = "findBestVariableAssignment cur (Params.batteries p) (D p - P_base p) (R p)"
  have leaf: "searchCombinations p us n 0 idx cur =
      (if sumValues cur > 1 + 1 / 10 ^ 10 then []
       else case ?found of
              None \<Rightarrow> []
            | Some res \<Rightarrow>
                [\<lparr>type = None, success = True, batteryCount = n,
                   batteries = AssignResult.batteries res,
                   totalPower = P_base p + totalGenerated res,
                   excess = P_base p + totalGenerated res - D p,
                   totalRatio = Some (sumValues cur),
                   complexity = enat (n * 10) + sumDepths cur\<rparr>])"
    by (simp only: searchCombinations.simps Let_def)
  from "0.prems" have bound: "\<not> sumValues cur > 1 + 1 / 10 ^ 10"
    unfolding leaf by (cases "sumValues cur > 1 + 1 / 10 ^ 10") simp_all
  with "0.prems" obtain res where res: "?found = Some res"
    unfolding leaf by (cases ?found) simp_all
  with "0.prems" bound
  have c: "c = \<lparr>type = None, success = True, batteryCount = n,
                 batteries = AssignResult.batteries res,
                 totalPower = P_base p + totalGenerated res,
                 excess = P_base p + totalGenerated res - D p,
                 totalRatio = Some (sumValues cur),
                 complexity = enat (n * 10) + sumDepths cur\<rparr>"
    unfolding leaf by simp
  from findBest_result [OF res] have "map ratio (AssignResult.batteries res) = cur"
      and "D p - P_base p - 1 / 100 \<le> totalGenerated res"
    by simp_all
  with c bound
  have "length [] = 0 \<and> sorted ([]::nat list) \<and> (\<forall>j \<in> set []. idx \<le> j \<and> j < length us) \<and>
          map ratio (Solution.batteries c) = cur @ map ((!) us) [] \<and>
          batteryCount c = n \<and>
          sumValues (cur @ map ((!) us) []) \<le> 1 + 1 / 10 ^ 10 \<and>
          D p - 1 / 100 \<le> totalPower c"
    by simp
  then show ?case by (rule exI [of _ "[]"])
next
  case (Suc k)
  have node: "searchCombinations p us n (Suc k) idx cur =
      (if sumValues cur > 1 + 1 / 10 ^ 10 then []
       else concat (map (\<lambda>i. if sumValues cur + value (us ! i) > 1 + 1 / 10 ^ 10 then []
                               else searchCombinations p us n k i (cur @ [us ! i]))
                        [idx..<length us]))"
    by (simp only: searchCombinations.simps Let_def)
  from Suc.prems obtain i where i: "i \<in> set [idx..<length us]"
      and c: "c \<in> set (searchCombinations p us n k i (cur @ [us ! i]))"
    unfolding node
    by (cases "sumValues cur > 1 + 1 / 10 ^ 10") (auto split: if_splits simp del: upt_Suc)
  from i have i': "idx \<le> i" "i < length us"
    by simp_all
  from Suc.IH [OF c] obtain js where js: "length js = k" "sorted js"
      "\<forall>j \<in> set js. i \<le> j \<and> j < length us"
      "map ratio (Solution.batteries c) = (cur @ [us ! i]) @ map ((!) us) js"
      "batteryCount c = n"
      "sumValues ((cur @ [us ! i]) @ map ((!) us) js) \<le> 1 + 1 / 10 ^ 10"
      "D p - 1 / 100 \<le> totalPower c"
    by blast
  have "length (i # js) = Suc k" using js(1) by simp
  moreover have "sorted (i # js)" using js(2,3) by simp
  moreover have "\<forall>j \<in> set (i # js). idx \<le> j \<and> j < length us"
    using js(3) i' by auto
  moreover have "map ratio (Solution.batteries c) = cur @ map ((!) us) (i # js)"
    using js(4) by simp
  moreover have "sumValues (cur @ map ((!) us) (i # js)) \<le> 1 + 1 / 10 ^ 10"
    using js(6) by simp
  ultimately have "length (i # js) = Suc k \<and> sorted (i # js) \<and>
          (\<forall>j \<in> set (i # js). idx \<le> j \<and> j < length us) \<and>
          map ratio (Solution.batteries c) = cur @ map ((!) us) (i # js) \<and>
          batteryCount c = n \<and>
          sumValues (cur @ map ((!) us) (i # js)) \<le> 1 + 1 / 10 ^ 10 \<and>
          D p - 1 / 100 \<le> totalPower c"
    using js(5,7) by (intro conjI)
  then show ?case by (rule exI [of _ "i # js"])
qed

lemma searchForNBatteries_candidate:
  assumes "c \<in> set (searchForNBatteries n p validRatios)"
  shows "\<exists>js. length js = n \<and> sorted js \<and>
          (\<forall>j \<in> set js. j < length (usableRatios p validRatios)) \<and>
          map ratio (Solution.batteries c) = map ((!) (usableRatios p validRatios)) js \<and>
          batteryCount c = n \<and>
          sumValues (map ratio (Solution.batteries c)) \<le> 1 + 1 / 10 ^ 10 \<and>
          D p - 1 / 100 \<le> totalPower c"
proof -
  from assms have "c \<in> set (searchCombinations p (usableRatios p validRatios) n n 0 [])"
    by (simp add: searchForNBatteries_def Let_def split: if_splits)
  from searchCombinations_candidate [OF this] show ?thesis
    by auto
qed


section \<open>Evaluation on the concrete inputs\<close>

lemma mkRatio_sel [simp]:
  "value (mkRatio v) = v" "depth (mkRatio v) = getDepth v" "fraction (mkRatio v) = toFraction v"
  by (simp_all add: mkRatio_def)

lemma mkAssignment_sel [simp]:
  "ratio (mkAssignment S r bt) = r"
  "Assignment.power (mkAssignment S r bt) = BatteryType.power bt * min 1 (S * value r / consume bt)"
  "dutyCycle (mkAssignment S r bt) = min 1 (S * value r / consume bt)"
  "typeData (mkAssignment S r bt) = bt"
  "Assignment.name (mkAssignment S r bt) = BatteryType.name bt"
  by (simp_all add: mkAssignment_def Let_def)

lemma unitBattery_sel [simp]:
  "BatteryType.power (unitBattery w) = w" "consume (unitBattery w) = 1"
  "BatteryType.name (unitBattery w) = ''standard''"
  by (simp_all add: unitBattery_def)

lemma getDepth_small [simp]: "getDepth 1 = 0" "getDepth (1 / 2) = 1" "getDepth (1 / 3) = 1"
  by (simp_all add: getDepth_def match_ab_def ab_grid_def pow_value_def upt_rec one_enat_def)

lemma toFraction_small [simp]:
  "toFraction 1 = ''1''" "toFraction (1 / 2) = ''1/2''" "toFraction (1 / 3) = ''1/3''"
  by (simp_all add: toFraction_def match_ab_def ab_grid_def pow_value_def upt_rec
        show_nat.simps digit_char_def)

lemma catalog_depth1:
  "generateValidRatios (Suc 0) = [mkRatio 1, mkRatio (1 / 2), mkRatio (1 / 3)]"
  by (simp add: generateValidRatios_def loop_values_def set_add_def pow_value_def)

lemma ceiling_half: "\<lceil>(1::rat) / 2\<rceil> = 1"
  by (simp add: ceiling_eq_iff)

lemma smallParams_sel [simp]:
  "D smallParams = 50" "P_base smallParams = 0" "R smallParams = 1" "maxDepth smallParams = 1"
  "Params.batteries smallParams = [unitBattery 100]"
  by (simp_all add: smallParams_def)

lemma small_usable:
  "usableRatios smallParams (generateValidRatios (Suc 0)) =
     [mkRatio 1, mkRatio (1 / 2), mkRatio (1 / 3)]"
  by (simp add: usableRatios_def catalog_depth1 maximum_def)

lemma small_range: "[minBatteries smallParams..searchLimit smallParams] = [1, 2, 3]"
  by (simp add: minBatteries_def searchLimit_def maximum_def minimum_def ceiling_half upto.simps)

lemma small_one:
  "searchForNBatteries (Suc 0) smallParams (generateValidRatios (Suc 0)) =
     [\<lparr>type = None, success = True, batteryCount = 1,
        batteries = [mkAssignment 1 (mkRatio 1) (unitBattery 100)],
        totalPower = 100, excess = 50, totalRatio = Some 1, complexity = 10\<rparr>,
      \<lparr>type = None, success = True, batteryCount = 1,
        batteries = [mkAssignment 1 (mkRatio (1 / 2)) (unitBattery 100)],
        totalPower = 50, excess = 0, totalRatio = Some (1 / 2), complexity = 11\<rparr>]"
  by (simp add: small_usable searchForNBatteries_def
        findBestVariableAssignment_def Let_def
        sumValues_def sumDepths_def upt_rec zero_enat_def one_enat_def numeral_eq_enat)

lemma small_two:
  "searchForNBatteries 2 smallParams (generateValidRatios (Suc 0)) =
     [\<lparr>type = None, success = True, batteryCount = 2,
        batteries = [mkAssignment 1 (mkRatio (1 / 2)) (unitBattery 100),
                     mkAssignment 1 (mkRatio (1 / 2)) (unitBattery 100)],
        totalPower = 100, excess = 50, totalRatio = Some 1, complexity = 22\<rparr>,
      \<lparr>type = None, success = True, batteryCount = 2,
        batteries = [mkAssignment 1 (mkRatio (1 / 2)) (unitBattery 100),
                     mkAssignment 1 (mkRatio (1 / 3)) (unitBattery 100)],
        totalPower = 250 / 3, excess = 100 / 3, totalRatio = Some (5 / 6), complexity = 22\<rparr>,
      \<lparr>type = None, success = True, batteryCount = 2,
        batteries = [mkAssignment 1 (mkRatio (1 / 3)) (unitBattery 100),
                     mkAssignment 1 (mkRatio (1 / 3)) (unitBattery 100)],
        totalPower = 200 / 3, excess = 50 / 3, totalRatio = Some (2 / 3), complexity = 22\<rparr>]"
  by (simp add: small_usable searchForNBatteries_def numeral_2_eq_2
        findBestVariableAssignment_def Let_def
        sumValues_def sumDepths_def upt_rec zero_enat_def one_enat_def numeral_eq_enat)

lemma small_three:
  "searchForNBatteries 3 smallParams (generateValidRatios (Suc 0)) =
     [\<lparr>type = None, success = True, batteryCount = 3,
        batteries = [mkAssignment 1 (mkRatio (1 / 3)) (unitBattery 100),
                     mkAssignment 1 (mkRatio (1 / 3)) (unitBattery 100),
                     mkAssignment 1 (mkRatio (1 / 3)) (unitBattery 100)],
        totalPower = 100, excess = 50, totalRatio = Some 1, complexity = 33\<rparr>]"
  by (simp add: small_usable searchForNBatteries_def numeral_3_eq_3
        findBestVariableAssignment_def Let_def
        sumValues_def sumDepths_def upt_rec zero_enat_def one_enat_def numeral_eq_enat)

lemma small_candidates:
  "allCandidates smallParams =
     searchForNBatteries (Suc 0) smallParams (generateValidRatios (Suc 0))
     @ searchForNBatteries 2 smallParams (generateValidRatios (Suc 0))
     @ searchForNBatteries 3 smallParams (generateValidRatios (Suc 0))"
  by (simp add: allCandidates_def small_range Let_def)


section \<open>Returned solutions are candidates\<close>

lemma hd_sort_key_in: "xs \<noteq> [] \<Longrightarrow> hd (sort_key f xs) \<in> set xs"
proof -
  assume "xs \<noteq> []"
  then have "sort_key f xs \<noteq> []"
    by (metis length_0_conv length_sort)
  then have "hd (sort_key f xs) \<in> set (sort_key f xs)"
    by (rule hd_in_set)
  then show ?thesis by simp
qed

lemma bestPrecisionOf_in: "refs \<noteq> [] \<Longrightarrow> bestPrecisionOf refs \<in> set refs"
  by (simp add: bestPrecisionOf_def sortByExcess_def hd_sort_key_in)

lemma simpleCandidatesOf_subset: "set (simpleCandidatesOf target refs) \<subseteq> set refs"
  by (auto simp: simpleCandidatesOf_def sortByExcess_def Let_def)

lemma firstSimpleOf_in:
  assumes "refs \<noteq> []"
  shows "firstSimpleOf target refs \<in> set refs"
proof (cases "simpleCandidatesOf target refs = []")
  case True
  have "hd (sort_key (\<lambda>c. complexity (snd c)) (sort_key (\<lambda>c. excess (snd c)) refs))
          \<in> set (sort_key (\<lambda>c. excess (snd c)) refs)"
    using assms by (intro hd_sort_key_in) (metis length_0_conv length_sort)
  with True show ?thesis
    by (simp add: firstSimpleOf_def sortByExcess_def)
next
  case False
  then have "hd (simpleCandidatesOf target refs) \<in> set (simpleCandidatesOf target refs)"
    by (rule hd_in_set)
  with False simpleCandidatesOf_subset [of target refs] show ?thesis
    by (auto simp: firstSimpleOf_def Let_def)
qed

lemma bestSimpleOf_in:
  assumes "refs \<noteq> []"
  shows "bestSimpleOf target refs \<in> set refs"
proof (cases "sameObject (firstSimpleOf target refs) (bestPrecisionOf refs)
              \<and> length (simpleCandidatesOf target refs) > 1")
  case True
  then have "simpleCandidatesOf target refs ! 1 \<in> set (simpleCandidatesOf target refs)"
    by (intro nth_mem) simp
  with True simpleCandidatesOf_subset [of target refs] show ?thesis
    by (auto simp: bestSimpleOf_def Let_def)
next
  case False
  with firstSimpleOf_in [OF assms, of target] show ?thesis
    by (auto simp: bestSimpleOf_def Let_def)
qed

lemma bestBalancedOf_in:
  assumes "bestBalancedOf target refs = Some b"
  shows "b \<in> set refs \<and> balancedTest (bestPrecisionOf refs) (bestSimpleOf target refs) b"
proof -
  from assms obtain i where "i < length (sortByExcess refs)"
      "balancedTest (bestPrecisionOf refs) (bestSimpleOf target refs) (sortByExcess refs ! i)"
      "b = sortByExcess refs ! i"
    by (auto simp: bestBalancedOf_def find_Some_iff)
  moreover from this have "b \<in> set (sortByExcess refs)"
    by simp
  ultimately show ?thesis
    by (simp add: sortByExcess_def)
qed

lemma pickedRefs_in:
  assumes "refs \<noteq> []" and "r \<in> set (pickedRefs target refs)"
  shows "r \<in> set refs"
proof -
  from assms(2) have "r = bestPrecisionOf refs \<or> r = bestSimpleOf target refs
             \<or> bestBalancedOf target refs = Some r"
    by (auto simp: pickedRefs_def Let_def split: if_splits option.splits)
  then show ?thesis
    using bestPrecisionOf_in [OF assms(1)] bestSimpleOf_in [OF assms(1), of target]
      bestBalancedOf_in [of target refs r]
    by auto
qed

lemma rankCandidates_members:
  assumes "cands \<noteq> []" and "s \<in> set (solutions (rankCandidates target cands))"
  shows "\<exists>c \<in> set cands. s = c\<lparr>type := type s\<rparr>"
proof -
  let ?refs = "List.enumerate 0 cands"
  from assms(1) have ne: "?refs \<noteq> []"
    by (cases cands) simp_all
  from assms(2) obtain r where r: "r \<in> set (pickedRefs target ?refs)"
      "s = deref (finalStore target ?refs) r"
    by (auto simp: rankCandidates_def Let_def)
  from pickedRefs_in [OF ne r(1)] have "fst r < length cands" "cands ! fst r = snd r"
    by (simp_all add: in_set_enumerate_eq)
  then have "snd r \<in> set cands"
    by (metis nth_mem)
  moreover from r(2) have "s = (snd r)\<lparr>type := type s\<rparr>"
    by (simp add: deref_def)
  ultimately show ?thesis by blast
qed

lemma searchOptimalCombination_members:
  assumes "searchOptimalCombination p = SuccessResult sols" and "s \<in> set sols"
  shows "\<exists>c \<in> set (allCandidates p). s = c\<lparr>type := type s\<rparr>"
proof -
  from assms(1) have ne: "allCandidates p \<noteq> []"
      and "rankCandidates (D p) (allCandidates p) = SuccessResult sols"
    by (auto simp: searchOptimalCombination_def Let_def split: if_splits)
  with assms(2) have "s \<in> set (solutions (rankCandidates (D p) (allCandidates p)))"
    by simp
  from rankCandidates_members [OF ne this] show ?thesis .
qed

section \<open>Bounds on every returned solution\<close>



section \<open>Order of the ratios of a candidate\<close>

lemma usableRatios_descending:
  "sorted_wrt (\<lambda>x y. value x \<ge> value y) (usableRatios p (generateValidRatios md))"
proof -
  have "sorted_wrt (\<lambda>x y. value x \<ge> value y) (generateValidRatios md)"
    using catalog_descending [of md]
    by (rule sorted_wrt_mono_rel [rotated]) simp
  then show ?thesis
    by (simp add: usableRatios_def Let_def sorted_wrt_filter)
qed

lemma descending_nth_mono:
  assumes "sorted_wrt (\<lambda>x y. value x \<ge> value y) us" and "a \<le> b" and "b < length us"
  shows "value (us ! a) \<ge> value (us ! b)"
proof (cases "a = b")
  case True
  then show ?thesis by simp
next
  case False
  with assms(2) have "a < b" by simp
  from sorted_wrt_nth_less [OF assms(1) this assms(3)] show ?thesis .
qed

text \<open>
  Claim C9.  In every candidate produced by \<open>searchForNBatteries\<close> on a catalog built by
  \<open>generateValidRatios\<close>, the ratio values of \<open>batteries\<close> do not increase along the
  sequence: for positions \<open>i < j\<close>, \<open>batteries[i].ratio.value >= batteries[j].ratio.value\<close>.
\<close>

theorem candidate_ratios_descending:
  "\<forall>c \<in> set (searchForNBatteries n p (generateValidRatios md)).
     \<forall>i j. i < j \<and> j < length (Solution.batteries c) \<longrightarrow>
       value (ratio (Solution.batteries c ! i)) \<ge> value (ratio (Solution.batteries c ! j))"
proof (intro ballI allI impI)
  fix c i j
  let ?us = "usableRatios p (generateValidRatios md)"
  assume "c \<in> set (searchForNBatteries n p (generateValidRatios md))"
    and ij: "i < j \<and> j < length (Solution.batteries c)"
  from searchForNBatteries_candidate [OF this(1)] obtain js
    where js: "sorted js" "\<forall>k \<in> set js. k < length ?us"
      "map ratio (Solution.batteries c) = map ((!) ?us) js"
    by blast
  from js(3) have len: "length js = length (Solution.batteries c)"
    by (metis length_map)
  with ij have i: "i < length js" and j: "j < length js"
    by simp_all
  from js(3) have nth: "ratio (Solution.batteries c ! k) = ?us ! (js ! k)" if "k < length js" for k
    using that len by (metis nth_map)
  from js(1) ij j have "js ! i \<le> js ! j"
    by (simp add: sorted_nth_mono)
  moreover from js(2) j have "js ! j < length ?us"
    by simp
  ultimately have "value (?us ! (js ! i)) \<ge> value (?us ! (js ! j))"
    using usableRatios_descending [of p md] by (intro descending_nth_mono)
  with nth [OF i] nth [OF j]
  show "value (ratio (Solution.batteries c ! i)) \<ge> value (ratio (Solution.batteries c ! j))"
    by simp
qed

theorem candidate_ratios_descending_witness:
  "map (\<lambda>a. value (ratio a))
       (Solution.batteries (searchForNBatteries 2 smallParams (generateValidRatios (Suc 0)) ! 1))
     = [1 / 2, 1 / 3]
   \<and> value (ratio (Solution.batteries
         (searchForNBatteries 2 smallParams (generateValidRatios (Suc 0)) ! 1) ! 0))
     \<ge> value (ratio (Solution.batteries
         (searchForNBatteries 2 smallParams (generateValidRatios (Suc 0)) ! 1) ! 1))"
proof -
  let ?c = "searchForNBatteries 2 smallParams (generateValidRatios (Suc 0)) ! 1"
  have mem: "?c \<in> set (searchForNBatteries 2 smallParams (generateValidRatios (Suc 0)))"
    by (simp add: small_two)
  have vals: "map (\<lambda>a. value (ratio a)) (Solution.batteries ?c) = [1 / 2, 1 / 3]"
    by (simp add: small_two)
  then have "length (Solution.batteries ?c) = 2"
    by (metis length_map length_Cons list.size(3) numeral_2_eq_2)
  with candidate_ratios_descending [of 2 smallParams "Suc 0"] mem
  have "value (ratio (Solution.batteries ?c ! 0)) \<ge> value (ratio (Solution.batteries ?c ! 1))"
    by simp
  with vals show ?thesis by simp
qed

section \<open>The scan order of the balanced pick\<close>

text \<open>A stable sort of a list whose elements carry increasing positions orders it by
  key first and by position among equal keys.\<close>

lemma insort_key_by_key_then_position:
  fixes f :: "'a \<Rightarrow> 'k::linorder" and pos :: "'a \<Rightarrow> nat"
  assumes "sorted_wrt (\<lambda>a b. f a < f b \<or> (f a = f b \<and> pos a < pos b)) ys"
    and "\<forall>y \<in> set ys. pos x < pos y"
  shows "sorted_wrt (\<lambda>a b. f a < f b \<or> (f a = f b \<and> pos a < pos b)) (insort_key f x ys)"
  using assms
proof (induction ys)
  case Nil
  then show ?case by simp
next
  case (Cons y ys)
  show ?case
  proof (cases "f x \<le> f y")
    case True
    from Cons.prems(1) have "\<forall>z \<in> set ys. f y \<le> f z"
      by auto
    with True Cons.prems show ?thesis
      by (auto simp: less_le)
  next
    case False
    with Cons show ?thesis
      by (auto simp: set_insort_key)
  qed
qed

lemma sort_key_by_key_then_position:
  fixes f :: "'a \<Rightarrow> 'k::linorder" and pos :: "'a \<Rightarrow> nat"
  assumes "sorted_wrt (\<lambda>a b. pos a < pos b) xs"
  shows "sorted_wrt (\<lambda>a b. f a < f b \<or> (f a = f b \<and> pos a < pos b)) (sort_key f xs)"
  using assms
proof (induction xs)
  case Nil
  then show ?case by simp
next
  case (Cons x xs)
  then have "sorted_wrt (\<lambda>a b. f a < f b \<or> (f a = f b \<and> pos a < pos b)) (sort_key f xs)"
    and "\<forall>y \<in> set (sort_key f xs). pos x < pos y"
    by simp_all
  then show ?case
    by (simp add: insort_key_by_key_then_position)
qed

lemma enumerate_positions: "sorted_wrt (\<lambda>a b. fst a < fst b) (List.enumerate n xs)"
proof -
  have "sorted_wrt (<) (map fst (List.enumerate n xs))"
    by simp
  then show ?thesis
    by (simp only: sorted_wrt_map)
qed

lemma find_first_of_sorted:
  assumes "sorted_wrt L xs" and "find Q xs = Some b"
  shows "Q b \<and> b \<in> set xs \<and> (\<forall>c \<in> set xs. Q c \<longrightarrow> c = b \<or> L b c)"
  using assms
proof (induction xs)
  case Nil
  then show ?case by simp
next
  case (Cons x xs)
  show ?case
  proof (cases "Q x")
    case True
    with Cons.prems show ?thesis by auto
  next
    case False
    with Cons show ?thesis by auto
  qed
qed

lemma finalStore_lookup:
  "finalStore target refs k =
     (if \<exists>b. bestBalancedOf target refs = Some b \<and> fst b = k then Some balanced
      else if k = fst (bestSimpleOf target refs) then Some simple
      else if k = fst (bestPrecisionOf refs) then Some precision
      else None)"
  by (auto simp: finalStore_def setType_def Let_def split: option.splits)

text \<open>
  Claim C7, as amended.  The balanced pick scans the candidates in the order the in-place
  sort by excess has left them, not in merge order: when present it is the candidate that
  passes the test (another object than the precision and simple picks, and an excess more
  than \<open>1\<close> away from the precision pick's or another battery count) with the least
  excess, the earliest merged among those of equal excess; it is absent exactly when no
  candidate passes the test.  The returned list holds it as its only solution of type
  \<open>balanced\<close>.
\<close>

theorem balanced_is_first_in_excess_order:
  assumes "searchOptimalCombination p = SuccessResult sols"
  shows "(bestBalancedOf (D p) (List.enumerate 0 (allCandidates p)) = None
            \<longleftrightarrow> (\<forall>c \<in> set (List.enumerate 0 (allCandidates p)).
                    \<not> balancedTest (bestPrecisionOf (List.enumerate 0 (allCandidates p)))
                         (bestSimpleOf (D p) (List.enumerate 0 (allCandidates p))) c))
         \<and> (\<forall>b. bestBalancedOf (D p) (List.enumerate 0 (allCandidates p)) = Some b \<longrightarrow>
               b \<in> set (List.enumerate 0 (allCandidates p)) \<and>
               balancedTest (bestPrecisionOf (List.enumerate 0 (allCandidates p)))
                 (bestSimpleOf (D p) (List.enumerate 0 (allCandidates p))) b \<and>
               (\<forall>c \<in> set (List.enumerate 0 (allCandidates p)).
                   balancedTest (bestPrecisionOf (List.enumerate 0 (allCandidates p)))
                     (bestSimpleOf (D p) (List.enumerate 0 (allCandidates p))) c \<longrightarrow>
                   excess (snd b) < excess (snd c) \<or>
                   (excess (snd b) = excess (snd c) \<and> fst b \<le> fst c)))
         \<and> filter (\<lambda>s. type s = Some balanced) sols =
             (case bestBalancedOf (D p) (List.enumerate 0 (allCandidates p)) of
                None \<Rightarrow> []
              | Some b \<Rightarrow> [(snd b)\<lparr>type := Some balanced\<rparr>])"
proof -
  let ?refs = "List.enumerate 0 (allCandidates p)"
  let ?bp = "bestPrecisionOf ?refs"
  let ?bs = "bestSimpleOf (D p) ?refs"
  let ?test = "balancedTest ?bp ?bs"
  let ?lex = "\<lambda>a b :: Ref. excess (snd a) < excess (snd b)
                \<or> (excess (snd a) = excess (snd b) \<and> fst a < fst b)"
  have sorted: "sorted_wrt ?lex (sortByExcess ?refs)"
    unfolding sortByExcess_def
    by (rule sort_key_by_key_then_position) (rule enumerate_positions)
  have none: "bestBalancedOf (D p) ?refs = None \<longleftrightarrow> (\<forall>c \<in> set ?refs. \<not> ?test c)"
    by (auto simp: bestBalancedOf_def find_None_iff sortByExcess_def)
  have some: "b \<in> set ?refs \<and> ?test b \<and>
      (\<forall>c \<in> set ?refs. ?test c \<longrightarrow>
         excess (snd b) < excess (snd c) \<or> (excess (snd b) = excess (snd c) \<and> fst b \<le> fst c))"
    if b: "bestBalancedOf (D p) ?refs = Some b" for b
  proof -
    from b have "find ?test (sortByExcess ?refs) = Some b"
      by (simp add: bestBalancedOf_def)
    from find_first_of_sorted [OF sorted this]
    have "?test b" "b \<in> set (sortByExcess ?refs)"
      and least: "\<forall>c \<in> set (sortByExcess ?refs). ?test c \<longrightarrow> c = b \<or> ?lex b c"
      by blast+
    moreover have "set (sortByExcess ?refs) = set ?refs"
      by (simp add: sortByExcess_def)
    ultimately show ?thesis
      by (auto simp: le_less)
  qed
  from assms have sols: "sols = map (deref (finalStore (D p) ?refs)) (pickedRefs (D p) ?refs)"
    by (auto simp: searchOptimalCombination_def rankCandidates_def Let_def split: if_splits)
  have labelled: "filter (\<lambda>s. type s = Some balanced) sols =
             (case bestBalancedOf (D p) ?refs of
                None \<Rightarrow> []
              | Some b \<Rightarrow> [(snd b)\<lparr>type := Some balanced\<rparr>])"
  proof (cases "bestBalancedOf (D p) ?refs")
    case None
    then show ?thesis
      unfolding sols
      by (simp add: pickedRefs_def Let_def deref_def finalStore_lookup)
  next
    case (Some b)
    with some [OF Some] have "\<not> sameObject b ?bp" "\<not> sameObject b ?bs"
      by (simp_all add: balancedTest_def)
    with Some show ?thesis
      unfolding sols
      by (simp add: pickedRefs_def Let_def deref_def finalStore_lookup sameObject_def)
  qed
  from none some labelled show ?thesis
    by blast
qed

lemmas ranking_defs =
  rankCandidates_def finalStore_def pickedRefs_def bestPrecisionOf_def bestSimpleOf_def
  firstSimpleOf_def simpleCandidatesOf_def bestBalancedOf_def balancedTest_def sameObject_def
  sortByExcess_def setType_def deref_def

lemmas small_eval = small_candidates small_one small_two small_three

lemma small_success:
  "searchOptimalCombination smallParams =
     SuccessResult (solutions (searchOptimalCombination smallParams))"
  by (simp add: searchOptimalCombination_def small_eval rankCandidates_def Let_def)

lemma small_balanced:
  "map_option fst (bestBalancedOf 50 (List.enumerate 0 (allCandidates smallParams))) = Some 4"
  by (simp add: small_eval ranking_defs Let_def numeral_eq_enat)

theorem balanced_is_first_in_excess_order_witness:
  "bestBalancedOf (D smallParams) (List.enumerate 0 (allCandidates smallParams)) \<noteq> None
   \<and> length (filter (\<lambda>s. type s = Some balanced)
               (solutions (searchOptimalCombination smallParams))) = 1"
proof -
  have "bestBalancedOf (D smallParams) (List.enumerate 0 (allCandidates smallParams)) \<noteq> None"
    using small_balanced by auto
  with balanced_is_first_in_excess_order [OF small_success] show ?thesis
    by (auto split: option.splits)
qed

text \<open>
  Claim C7 as stated fails on \<open>smallParams\<close>.  The candidates in merge order are
  \<open>[1]\<close>, \<open>[1/2]\<close>, \<open>[1/2, 1/2]\<close>, \<open>[1/2, 1/3]\<close>, \<open>[1/3, 1/3]\<close>, \<open>[1/3, 1/3, 1/3]\<close> with
  excess \<open>50\<close>, \<open>0\<close>, \<open>50\<close>, \<open>100/3\<close>, \<open>50/3\<close>, \<open>50\<close>.  The precision pick is number 1,
  the simple pick number 0; the first candidate in merge order that passes the test is
  number 2 (\<open>[1/2, 1/2]\<close>, excess \<open>50\<close>), but the returned balanced solution is number 4
  (\<open>[1/3, 1/3]\<close>, excess \<open>50/3\<close>), the first in order of excess.
\<close>

theorem balanced_merge_order_counterexample:
  "map_option fst (specBalanced (D smallParams) (List.enumerate 0 (allCandidates smallParams)))
     = Some 2
   \<and> map_option fst (bestBalancedOf (D smallParams) (List.enumerate 0 (allCandidates smallParams)))
     = Some 4
   \<and> map_option (\<lambda>r. (map (\<lambda>a. fraction (ratio a)) (Solution.batteries (snd r)), excess (snd r)))
        (specBalanced (D smallParams) (List.enumerate 0 (allCandidates smallParams)))
     = Some ([''1/2'', ''1/2''], 50)
   \<and> map (\<lambda>s. (map (\<lambda>a. fraction (ratio a)) (Solution.batteries s), excess s))
        (filter (\<lambda>s. type s = Some balanced) (solutions (searchOptimalCombination smallParams)))
     = [([''1/3'', ''1/3''], 50 / 3)]"
proof -
  have spec: "map_option (\<lambda>r. (fst r, map (\<lambda>a. fraction (ratio a)) (Solution.batteries (snd r)),
                               excess (snd r)))
        (specBalanced 50 (List.enumerate 0 (allCandidates smallParams)))
      = Some (2, [''1/2'', ''1/2''], 50)"
    by (simp add: specBalanced_def small_eval ranking_defs Let_def numeral_eq_enat)
  have spec_fst: "map_option fst (specBalanced 50 (List.enumerate 0 (allCandidates smallParams)))
      = Some 2"
    using spec by (auto simp: map_option_case split: option.splits)
  have spec_snd: "map_option (\<lambda>r. (map (\<lambda>a. fraction (ratio a)) (Solution.batteries (snd r)),
                                   excess (snd r)))
        (specBalanced 50 (List.enumerate 0 (allCandidates smallParams)))
      = Some ([''1/2'', ''1/2''], 50)"
    using spec by (auto simp: map_option_case split: option.splits)
  have code: "map (\<lambda>s. (map (\<lambda>a. fraction (ratio a)) (Solution.batteries s), excess s))
        (filter (\<lambda>s. type s = Some balanced) (solutions (searchOptimalCombination smallParams)))
      = [([''1/3'', ''1/3''], 50 / 3)]"
    by (simp add: searchOptimalCombination_def small_eval ranking_defs Let_def numeral_eq_enat)
  from spec_fst spec_snd small_balanced code show ?thesis
    by simp
qed

section \<open>The precision pick relabelled as simple\<close>

lemma surplusParams_sel [simp]:
  "D surplusParams = 500" "P_base surplusParams = 0" "R surplusParams = 1"
  "maxDepth surplusParams = 1" "Params.batteries surplusParams = [unitBattery 1000]"
  by (simp_all add: surplusParams_def)

lemma surplus_usable:
  "usableRatios surplusParams (generateValidRatios (Suc 0)) =
     [mkRatio 1, mkRatio (1 / 2), mkRatio (1 / 3)]"
  by (simp add: usableRatios_def catalog_depth1 maximum_def)

lemma surplus_range: "[minBatteries surplusParams..searchLimit surplusParams] = [1, 2, 3]"
  by (simp add: minBatteries_def searchLimit_def maximum_def minimum_def ceiling_half upto.simps)

lemma surplus_one:
  "searchForNBatteries (Suc 0) surplusParams (generateValidRatios (Suc 0)) =
     [\<lparr>type = None, success = True, batteryCount = 1,
        batteries = [mkAssignment 1 (mkRatio 1) (unitBattery 1000)],
        totalPower = 1000, excess = 500, totalRatio = Some 1, complexity = 10\<rparr>,
      \<lparr>type = None, success = True, batteryCount = 1,
        batteries = [mkAssignment 1 (mkRatio (1 / 2)) (unitBattery 1000)],
        totalPower = 500, excess = 0, totalRatio = Some (1 / 2), complexity = 11\<rparr>]"
  by (simp add: surplus_usable searchForNBatteries_def
        findBestVariableAssignment_def Let_def
        sumValues_def sumDepths_def upt_rec zero_enat_def one_enat_def numeral_eq_enat)

lemma surplus_two:
  "searchForNBatteries 2 surplusParams (generateValidRatios (Suc 0)) =
     [\<lparr>type = None, success = True, batteryCount = 2,
        batteries = [mkAssignment 1 (mkRatio (1 / 2)) (unitBattery 1000),
                     mkAssignment 1 (mkRatio (1 / 2)) (unitBattery 1000)],
        totalPower = 1000, excess = 500, totalRatio = Some 1, complexity = 22\<rparr>,
      \<lparr>type = None, success = True, batteryCount = 2,
        batteries = [mkAssignment 1 (mkRatio (1 / 2)) (unitBattery 1000),
                     mkAssignment 1 (mkRatio (1 / 3)) (unitBattery 1000)],
        totalPower = 2500 / 3, excess = 1000 / 3, totalRatio = Some (5 / 6), complexity = 22\<rparr>,
      \<lparr>type = None, success = True, batteryCount = 2,
        batteries = [mkAssignment 1 (mkRatio (1 / 3)) (unitBattery 1000),
                     mkAssignment 1 (mkRatio (1 / 3)) (unitBattery 1000)],
        totalPower = 2000 / 3, excess = 500 / 3, totalRatio = Some (2 / 3), complexity = 22\<rparr>]"
  by (simp add: surplus_usable searchForNBatteries_def numeral_2_eq_2
        findBestVariableAssignment_def Let_def
        sumValues_def sumDepths_def upt_rec zero_enat_def one_enat_def numeral_eq_enat)

lemma surplus_three:
  "searchForNBatteries 3 surplusParams (generateValidRatios (Suc 0)) =
     [\<lparr>type = None, success = True, batteryCount = 3,
        batteries = [mkAssignment 1 (mkRatio (1 / 3)) (unitBattery 1000),
                     mkAssignment 1 (mkRatio (1 / 3)) (unitBattery 1000),
                     mkAssignment 1 (mkRatio (1 / 3)) (unitBattery 1000)],
        totalPower = 1000, excess = 500, totalRatio = Some 1, complexity = 33\<rparr>]"
  by (simp add: surplus_usable searchForNBatteries_def numeral_3_eq_3
        findBestVariableAssignment_def Let_def
        sumValues_def sumDepths_def upt_rec zero_enat_def one_enat_def numeral_eq_enat)

lemma surplus_candidates:
  "allCandidates surplusParams =
     searchForNBatteries (Suc 0) surplusParams (generateValidRatios (Suc 0))
     @ searchForNBatteries 2 surplusParams (generateValidRatios (Suc 0))
     @ searchForNBatteries 3 surplusParams (generateValidRatios (Suc 0))"
  by (simp add: allCandidates_def surplus_range Let_def)

lemmas surplus_eval = surplus_candidates surplus_one surplus_two surplus_three

lemma surplus_success:
  "searchOptimalCombination surplusParams =
     SuccessResult (solutions (searchOptimalCombination surplusParams))"
  by (simp add: searchOptimalCombination_def surplus_eval rankCandidates_def Let_def)

lemma surplus_same_pick:
  "sameObject (firstSimpleOf (D surplusParams) (List.enumerate 0 (allCandidates surplusParams)))
              (bestPrecisionOf (List.enumerate 0 (allCandidates surplusParams)))
   \<and> length (simpleCandidatesOf (D surplusParams)
               (List.enumerate 0 (allCandidates surplusParams))) = 1"
  by (simp add: surplus_eval ranking_defs Let_def numeral_eq_enat)

lemma hd_sort_key_least:
  assumes "x \<in> set xs"
  shows "f (hd (sort_key f xs)) \<le> f x"
proof (cases "sort_key f xs")
  case Nil
  with assms show ?thesis
    by (metis empty_iff list.set(1) set_sort)
next
  case (Cons y ys)
  have "sorted (map f (sort_key f xs))"
    by simp
  with Cons have "\<forall>z \<in> set ys. f y \<le> f z"
    by simp
  moreover from assms Cons have "x = y \<or> x \<in> set ys"
    by (metis set_ConsD set_sort)
  ultimately show ?thesis
    using Cons by auto
qed

text \<open>
  Claim C10, as amended.  When the minimum-excess candidate is also the simple pick (the
  same object, and at most one candidate lies under the excess threshold, so that no
  other one replaces it), its \<open>type\<close> ends as \<open>simple\<close>: the returned list starts with the
  minimum-excess candidate labelled \<open>simple\<close>, continues with the balanced pick only (when
  there is one), and holds no solution labelled \<open>precision\<close>.
\<close>

theorem precision_pick_relabelled_simple:
  assumes "searchOptimalCombination p = SuccessResult sols"
    and "sameObject (firstSimpleOf (D p) (List.enumerate 0 (allCandidates p)))
                    (bestPrecisionOf (List.enumerate 0 (allCandidates p)))"
    and "length (simpleCandidatesOf (D p) (List.enumerate 0 (allCandidates p))) \<le> 1"
  shows "sols = (snd (bestPrecisionOf (List.enumerate 0 (allCandidates p))))\<lparr>type := Some simple\<rparr>
                  # (case bestBalancedOf (D p) (List.enumerate 0 (allCandidates p)) of
                       None \<Rightarrow> []
                     | Some b \<Rightarrow> [(snd b)\<lparr>type := Some balanced\<rparr>])
         \<and> (\<forall>c \<in> set (allCandidates p).
               excess (snd (bestPrecisionOf (List.enumerate 0 (allCandidates p)))) \<le> excess c)
         \<and> (\<forall>s \<in> set sols. type s \<noteq> Some precision)"
proof -
  let ?refs = "List.enumerate 0 (allCandidates p)"
  let ?bp = "bestPrecisionOf ?refs"
  from assms(2,3) have same: "bestSimpleOf (D p) ?refs = firstSimpleOf (D p) ?refs"
      "sameObject (bestSimpleOf (D p) ?refs) ?bp"
    by (simp_all add: bestSimpleOf_def Let_def)
  from assms(1) have sols: "sols = map (deref (finalStore (D p) ?refs)) (pickedRefs (D p) ?refs)"
    by (auto simp: searchOptimalCombination_def rankCandidates_def Let_def split: if_splits)
  have list: "sols = (snd ?bp)\<lparr>type := Some simple\<rparr>
                  # (case bestBalancedOf (D p) ?refs of
                       None \<Rightarrow> []
                     | Some b \<Rightarrow> [(snd b)\<lparr>type := Some balanced\<rparr>])"
  proof (cases "bestBalancedOf (D p) ?refs")
    case None
    with same(2) show ?thesis
      unfolding sols
      by (simp add: pickedRefs_def Let_def deref_def finalStore_lookup sameObject_def)
  next
    case (Some b)
    from bestBalancedOf_in [OF Some] have "\<not> sameObject b ?bp"
        "\<not> sameObject b (bestSimpleOf (D p) ?refs)"
      by (simp_all add: balancedTest_def)
    with Some same(2) show ?thesis
      unfolding sols
      by (simp add: pickedRefs_def Let_def deref_def finalStore_lookup sameObject_def)
  qed
  have least: "\<forall>c \<in> set (allCandidates p). excess (snd ?bp) \<le> excess c"
  proof
    fix c
    assume "c \<in> set (allCandidates p)"
    then obtain i where "i < length (allCandidates p)" "allCandidates p ! i = c"
      by (auto simp: in_set_conv_nth)
    then have "(i, c) \<in> set ?refs"
      by (simp add: in_set_enumerate_eq)
    from hd_sort_key_least [OF this, of "\<lambda>r. excess (snd r)"]
    show "excess (snd ?bp) \<le> excess c"
      by (simp add: bestPrecisionOf_def sortByExcess_def)
  qed
  from list have "\<forall>s \<in> set sols. type s \<noteq> Some precision"
    by (auto split: option.splits)
  with list least show ?thesis
    by blast
qed

theorem precision_pick_relabelled_simple_witness:
  "map type (solutions (searchOptimalCombination surplusParams)) \<noteq> []
   \<and> list_all (\<lambda>s. type s \<noteq> Some precision) (solutions (searchOptimalCombination surplusParams))"
proof -
  from surplus_same_pick
  have "sameObject (firstSimpleOf (D surplusParams) (List.enumerate 0 (allCandidates surplusParams)))
              (bestPrecisionOf (List.enumerate 0 (allCandidates surplusParams)))"
    and "length (simpleCandidatesOf (D surplusParams)
               (List.enumerate 0 (allCandidates surplusParams))) \<le> 1"
    by simp_all
  from precision_pick_relabelled_simple [OF surplus_success this] show ?thesis
    by (simp add: list_all_iff)
qed

text \<open>
  Claim C10 as stated fails on \<open>surplusParams\<close>: the minimum-excess candidate is the
  simple pick, it is the only candidate under the threshold, and yet the returned list has
  two elements, labelled \<open>simple\<close> and \<open>balanced\<close>.
\<close>

theorem single_element_counterexample:
  "sameObject (firstSimpleOf (D surplusParams) (List.enumerate 0 (allCandidates surplusParams)))
              (bestPrecisionOf (List.enumerate 0 (allCandidates surplusParams)))
   \<and> length (simpleCandidatesOf (D surplusParams)
               (List.enumerate 0 (allCandidates surplusParams))) = 1
   \<and> map (\<lambda>s. (type s, batteryCount s, excess s))
         (solutions (searchOptimalCombination surplusParams))
       = [(Some simple, 1, 0), (Some balanced, 2, 500 / 3)]"
proof -
  have "map (\<lambda>s. (type s, batteryCount s, excess s))
         (solutions (searchOptimalCombination surplusParams))
       = [(Some simple, 1, 0), (Some balanced, 2, 500 / 3)]"
    by (simp add: searchOptimalCombination_def surplus_eval ranking_defs Let_def numeral_eq_enat)
  with surplus_same_pick show ?thesis
    by simp
qed

section \<open>The scenario of the specification\<close>

lemma scenarioParams_sel [simp]:
  "D scenarioParams = 1100" "P_base scenarioParams = 0" "R scenarioParams = 1"
  "maxDepth scenarioParams = 5"
  "Params.batteries scenarioParams = [scenarioBattery]"
  by (simp_all add: scenarioParams_def)

lemma scenarioBattery_sel [simp]:
  "BatteryType.power scenarioBattery = 1100" "consume scenarioBattery = 1 / 40"
  "BatteryType.name scenarioBattery = ''standard''"
  by (simp_all add: scenarioBattery_def)

lemma catalog_depth5:
  "generateValidRatios 5 =
     map mkRatio [1, 1 / 2, 1 / 3, 1 / 4, 1 / 6, 1 / 8, 1 / 9, 1 / 12, 1 / 16, 1 / 18, 1 / 24,
                  1 / 27, 1 / 32, 1 / 36, 1 / 48, 1 / 54, 1 / 72, 1 / 81, 1 / 108, 1 / 162,
                  1 / 243]"
  by (simp add: generateValidRatios_def loop_values_def set_add_def pow_value_def upt_rec)

lemma scenario_usable:
  "usableRatios scenarioParams (generateValidRatios 5) =
     map mkRatio [1 / 48, 1 / 54, 1 / 72, 1 / 81, 1 / 108, 1 / 162, 1 / 243]"
  by (simp add: usableRatios_def catalog_depth5 maximum_def)

lemma scenario_range: "[minBatteries scenarioParams..searchLimit scenarioParams] = [1, 2, 3, 4]"
  by (simp add: minBatteries_def searchLimit_def maximum_def minimum_def upto.simps)

lemma getDepth_scenario [simp]:
  "getDepth (1 / 48) = 5" "getDepth (1 / 54) = 4" "getDepth (1 / 72) = 5" "getDepth (1 / 81) = 4"
  "getDepth (1 / 108) = 5" "getDepth (1 / 162) = 5" "getDepth (1 / 243) = 5"
  by (simp_all add: getDepth_def match_ab_def ab_grid_def pow_value_def upt_rec numeral_eq_enat)

lemma assign_single_type:
  "assign [bt] T S rs cur p st =
     assign [bt] T S [] (cur @ map (\<lambda>r. mkAssignment S r bt) rs)
       (p + sum_list (map (\<lambda>r. Assignment.power (mkAssignment S r bt)) rs)) st"
  by (induction rs arbitrary: cur p) (simp_all add: Let_def add.assoc del: assign.simps(1))

lemma findBest_single_type:
  "findBestVariableAssignment rs [bt] T S =
     (let total = sum_list (map (\<lambda>r. Assignment.power (mkAssignment S r bt)) rs)
      in if total \<ge> T - 1 / 100
         then Some \<lparr>totalGenerated = total, batteries = map (\<lambda>r. mkAssignment S r bt) rs\<rparr>
         else None)"
  by (subst findBestVariableAssignment_def, subst assign_single_type) (simp add: Let_def)

lemma scenario_one:
  "searchForNBatteries (Suc 0) scenarioParams (generateValidRatios 5) = []"
  by (simp add: scenario_usable searchForNBatteries_def findBest_single_type Let_def
        sumValues_def upt_rec)

lemma four_eq: "4 = Suc (Suc (Suc (Suc 0)))"
  by simp

lemma scenario_candidates:
  "allCandidates scenarioParams =
     searchForNBatteries 2 scenarioParams (generateValidRatios 5)
     @ searchForNBatteries 3 scenarioParams (generateValidRatios 5)
     @ searchForNBatteries 4 scenarioParams (generateValidRatios 5)"
  by (simp add: allCandidates_def scenario_range scenario_one Let_def)


lemma toFraction_scenario [simp]:
  "toFraction (1 / 81) = ''1/81''" "toFraction (1 / 108) = ''1/108''"
  "toFraction (1 / 243) = ''1/243''"
  by (simp_all add: toFraction_def match_ab_def ab_grid_def pow_value_def upt_rec
        show_nat.simps digit_char_def)

lemmas scenario_search =
  scenario_usable searchForNBatteries_def findBest_single_type Let_def sumValues_def
  sumDepths_def upt_rec numeral_2_eq_2 numeral_3_eq_3 four_eq numeral_eq_enat

lemma scenario_two_length:
  "length (searchForNBatteries 2 scenarioParams (generateValidRatios 5)) = 12"
  by (simp add: scenario_search)

text \<open>The candidate merged at position \<open>80\<close>, number \<open>68\<close> among those of three
  batteries, and a check of every candidate against it: an earlier one has a larger
  excess, a later one no smaller excess.\<close>

lemma scenario_three_best:
  "68 < length (searchForNBatteries 3 scenarioParams (generateValidRatios 5))"
  "batteryCount (searchForNBatteries 3 scenarioParams (generateValidRatios 5) ! 68) = 3"
  "map (\<lambda>a. fraction (ratio a))
       (Solution.batteries (searchForNBatteries 3 scenarioParams (generateValidRatios 5) ! 68))
     = [''1/81'', ''1/108'', ''1/243'']"
  "excess (searchForNBatteries 3 scenarioParams (generateValidRatios 5) ! 68) = 7700 / 243"
  by (simp_all add: scenario_search)

lemma scenario_at_80:
  "80 < length (allCandidates scenarioParams)"
  "allCandidates scenarioParams ! 80
     = searchForNBatteries 3 scenarioParams (generateValidRatios 5) ! 68"
  using scenario_three_best(1)
  by (simp_all add: scenario_candidates nth_append scenario_two_length)

lemma scenario_certificate:
  "list_all (\<lambda>c. 7700 / 243 < excess (snd c) \<or> (7700 / 243 = excess (snd c) \<and> 80 \<le> fst c))
     (List.enumerate 0 (allCandidates scenarioParams))"
  by (simp add: scenario_candidates scenario_search)

lemma bestPrecision_certificate:
  assumes "b \<in> set (List.enumerate 0 cands)"
    and "\<forall>c \<in> set (List.enumerate 0 cands).
           excess (snd b) < excess (snd c) \<or> (excess (snd b) = excess (snd c) \<and> fst b \<le> fst c)"
  shows "bestPrecisionOf (List.enumerate 0 cands) = b"
proof -
  let ?refs = "List.enumerate 0 cands"
  let ?lex = "\<lambda>a b :: Ref. excess (snd a) < excess (snd b)
                \<or> (excess (snd a) = excess (snd b) \<and> fst a < fst b)"
  have sorted: "sorted_wrt ?lex (sortByExcess ?refs)"
    unfolding sortByExcess_def
    by (rule sort_key_by_key_then_position) (rule enumerate_positions)
  from assms(1) have "set (sortByExcess ?refs) \<noteq> {}"
    by (auto simp: sortByExcess_def)
  then have "sortByExcess ?refs \<noteq> []"
    by auto
  then obtain h t where ht: "sortByExcess ?refs = h # t"
    by (cases "sortByExcess ?refs") auto
  with sorted have first: "\<forall>c \<in> set t. ?lex h c"
    by simp
  have "set (sortByExcess ?refs) = set ?refs"
    by (simp add: sortByExcess_def)
  with ht have h: "h \<in> set ?refs" and b: "b = h \<or> b \<in> set t"
    using assms(1) by auto
  from assms(2) h have "excess (snd b) < excess (snd h)
      \<or> (excess (snd b) = excess (snd h) \<and> fst b \<le> fst h)"
    by blast
  with b first have "b = h"
    by auto
  with ht show ?thesis
    by (simp add: bestPrecisionOf_def)
qed

lemma scenario_certificate_facts:
  "80 < length (allCandidates scenarioParams)"
  "batteryCount (allCandidates scenarioParams ! 80) = 3"
  "map (\<lambda>a. fraction (ratio a)) (Solution.batteries (allCandidates scenarioParams ! 80))
     = [''1/81'', ''1/108'', ''1/243'']"
  "excess (allCandidates scenarioParams ! 80) = 7700 / 243"
  "\<forall>c \<in> set (List.enumerate 0 (allCandidates scenarioParams)).
     7700 / 243 < excess (snd c) \<or> (7700 / 243 = excess (snd c) \<and> 80 \<le> fst c)"
proof -
  show "80 < length (allCandidates scenarioParams)"
    by (rule scenario_at_80)
  show "batteryCount (allCandidates scenarioParams ! 80) = 3"
    unfolding scenario_at_80(2) by (rule scenario_three_best)
  show "map (\<lambda>a. fraction (ratio a)) (Solution.batteries (allCandidates scenarioParams ! 80))
     = [''1/81'', ''1/108'', ''1/243'']"
    unfolding scenario_at_80(2) by (rule scenario_three_best)
  show "excess (allCandidates scenarioParams ! 80) = 7700 / 243"
    unfolding scenario_at_80(2) by (rule scenario_three_best)
  show "\<forall>c \<in> set (List.enumerate 0 (allCandidates scenarioParams)).
     7700 / 243 < excess (snd c) \<or> (7700 / 243 = excess (snd c) \<and> 80 \<le> fst c)"
    using scenario_certificate unfolding list_all_iff .
qed

lemma scenario_precision:
  "bestPrecisionOf (List.enumerate 0 (allCandidates scenarioParams))
     = (80, allCandidates scenarioParams ! 80)"
proof (rule bestPrecision_certificate)
  from scenario_certificate_facts(1)
  show "(80, allCandidates scenarioParams ! 80)
      \<in> set (List.enumerate 0 (allCandidates scenarioParams))"
    by (simp add: in_set_enumerate_eq)
  from scenario_certificate_facts(5)
  show "\<forall>c \<in> set (List.enumerate 0 (allCandidates scenarioParams)).
      excess (snd (80, allCandidates scenarioParams ! 80)) < excess (snd c)
      \<or> (excess (snd (80, allCandidates scenarioParams ! 80)) = excess (snd c)
          \<and> fst (80, allCandidates scenarioParams ! 80) \<le> fst c)"
    unfolding snd_conv fst_conv scenario_certificate_facts(4) .
qed

lemma scenario_candidate_shape:
  assumes "c \<in> set (allCandidates scenarioParams)"
  shows "batteryCount c \<in> {2, 3, 4}
         \<and> list_all (\<lambda>a. value (ratio a) \<le> 1 / 48) (Solution.batteries c)
         \<and> 7700 / 243 \<le> excess c"
proof -
  let ?us = "usableRatios scenarioParams (generateValidRatios 5)"
  from assms obtain n where n: "n \<in> {2, 3, 4}"
      "c \<in> set (searchForNBatteries n scenarioParams (generateValidRatios 5))"
    by (auto simp: scenario_candidates)
  from searchForNBatteries_candidate [OF n(2)] obtain js
    where js: "\<forall>j \<in> set js. j < length ?us"
      "map ratio (Solution.batteries c) = map ((!) ?us) js" "batteryCount c = n"
    by blast
  have "\<forall>r \<in> set ?us. value r \<le> 1 / 48"
    by (simp add: scenario_usable)
  with js(1) have "\<forall>r \<in> set (map ((!) ?us) js). value r \<le> 1 / 48"
    by auto
  with js(2) have "\<forall>r \<in> set (map ratio (Solution.batteries c)). value r \<le> 1 / 48"
    by simp
  then have ratios: "list_all (\<lambda>a. value (ratio a) \<le> 1 / 48) (Solution.batteries c)"
    by (simp add: list_all_iff)
  from assms obtain i where "i < length (allCandidates scenarioParams)"
      "allCandidates scenarioParams ! i = c"
    by (auto simp: in_set_conv_nth)
  then have "(i, c) \<in> set (List.enumerate 0 (allCandidates scenarioParams))"
    by (simp add: in_set_enumerate_eq)
  with scenario_certificate_facts(5) have "7700 / 243 \<le> excess c"
    by fastforce
  with ratios n(1) js(3) show ?thesis
    by simp
qed

lemma scenario_solutions:
  "\<exists>sols. searchOptimalCombination scenarioParams = SuccessResult sols
     \<and> sols \<noteq> []
     \<and> batteryCount (hd sols) = 3
     \<and> map (\<lambda>a. fraction (ratio a)) (Solution.batteries (hd sols)) = [''1/81'', ''1/108'', ''1/243'']
     \<and> excess (hd sols) = 7700 / 243
     \<and> list_all (\<lambda>s. batteryCount s \<in> {2, 3, 4}
                     \<and> list_all (\<lambda>a. value (ratio a) \<le> 1 / 48) (Solution.batteries s)
                     \<and> 7700 / 243 \<le> excess s) sols"
proof -
  let ?cs = "allCandidates scenarioParams"
  let ?refs = "List.enumerate 0 ?cs"
  let ?sols = "map (deref (finalStore 1100 ?refs)) (pickedRefs 1100 ?refs)"
  from scenario_certificate_facts(1) have ne: "?cs \<noteq> []"
    by auto
  have "Params.batteries scenarioParams \<noteq> []" by simp
  with ne have res: "searchOptimalCombination scenarioParams = SuccessResult ?sols"
    by (simp add: searchOptimalCombination_def rankCandidates_def Let_def)
  have "hd ?sols = deref (finalStore 1100 ?refs) (80, ?cs ! 80)"
    by (simp add: pickedRefs_def Let_def scenario_precision)
  with scenario_certificate_facts have first: "batteryCount (hd ?sols) = 3"
      "map (\<lambda>a. fraction (ratio a)) (Solution.batteries (hd ?sols)) = [''1/81'', ''1/108'', ''1/243'']"
      "excess (hd ?sols) = 7700 / 243"
    by (simp_all add: deref_def)
  have "batteryCount s \<in> {2, 3, 4}
        \<and> list_all (\<lambda>a. value (ratio a) \<le> 1 / 48) (Solution.batteries s)
        \<and> 7700 / 243 \<le> excess s" if "s \<in> set ?sols" for s
  proof -
    from searchOptimalCombination_members [OF res that]
    obtain c where c: "c \<in> set ?cs" "s = c\<lparr>type := type s\<rparr>"
      by blast
    have "batteryCount s = batteryCount c" "Solution.batteries s = Solution.batteries c"
        "excess s = excess c"
      by (subst c(2), simp)+
    with scenario_candidate_shape [OF c(1)] show ?thesis
      by simp
  qed
  then have "list_all (\<lambda>s. batteryCount s \<in> {2, 3, 4}
                     \<and> list_all (\<lambda>a. value (ratio a) \<le> 1 / 48) (Solution.batteries s)
                     \<and> 7700 / 243 \<le> excess s) ?sols"
    by (simp add: list_all_iff)
  moreover have "?sols \<noteq> []"
    by (simp add: pickedRefs_def Let_def)
  ultimately have "searchOptimalCombination scenarioParams = SuccessResult ?sols
     \<and> ?sols \<noteq> []
     \<and> batteryCount (hd ?sols) = 3
     \<and> map (\<lambda>a. fraction (ratio a)) (Solution.batteries (hd ?sols)) = [''1/81'', ''1/108'', ''1/243'']
     \<and> excess (hd ?sols) = 7700 / 243
     \<and> list_all (\<lambda>s. batteryCount s \<in> {2, 3, 4}
                     \<and> list_all (\<lambda>a. value (ratio a) \<le> 1 / 48) (Solution.batteries s)
                     \<and> 7700 / 243 \<le> excess s) ?sols"
    using res first by (intro conjI)
  then show ?thesis
    by (rule exI)
qed

text \<open>
  Claim C4, as amended.  On the scenario \<open>D = 1100\<close>, \<open>P_base = 0\<close>, one battery type of
  power \<open>1100\<close> and consumption \<open>0.025\<close>, \<open>R = 1\<close>, \<open>maxDepth = 5\<close>, only the ratios up to
  \<open>consume / R + 0.0001 = 0.0251\<close> are usable, the largest being \<open>1/48\<close>, so that ratio \<open>1\<close>
  is never assigned.  The search succeeds; its first solution has three batteries on the
  ratios \<open>1/81\<close>, \<open>1/108\<close>, \<open>1/243\<close> with excess \<open>7700/243\<close> (about \<open>31.7\<close>), and every
  returned solution has two to four batteries, each on a ratio of at most \<open>1/48\<close>, and an
  excess of at least \<open>7700/243\<close>.
\<close>

theorem scenario_needs_three_batteries:
  "\<exists>sols. searchOptimalCombination scenarioParams = SuccessResult sols
     \<and> sols \<noteq> []
     \<and> batteryCount (hd sols) = 3
     \<and> map (\<lambda>a. fraction (ratio a)) (Solution.batteries (hd sols)) = [''1/81'', ''1/108'', ''1/243'']
     \<and> excess (hd sols) = 7700 / 243
     \<and> list_all (\<lambda>s. batteryCount s \<in> {2, 3, 4}
                     \<and> list_all (\<lambda>a. value (ratio a) \<le> 1 / 48) (Solution.batteries s)
                     \<and> 7700 / 243 \<le> excess s) sols"
  by (rule scenario_solutions)

theorem scenario_needs_three_batteries_witness:
  "searchOptimalCombination scenarioParams \<noteq> FailureResult noSolutionMessage []
   \<and> solutions (searchOptimalCombination scenarioParams) \<noteq> []"
  using scenario_needs_three_batteries by auto

text \<open>
  Claim C4 as stated fails: no solution returned for the scenario has one battery, none
  assigns ratio \<open>1\<close>, and none has an excess near \<open>0\<close>; the search for one battery finds
  no candidate at all.
\<close>

theorem scenario_single_battery_counterexample:
  "searchForNBatteries 1 scenarioParams (generateValidRatios 5) = []
   \<and> \<not> list_ex (\<lambda>s. batteryCount s = 1 \<or> list_ex (\<lambda>a. value (ratio a) = 1) (Solution.batteries s)
                     \<or> excess s < 30)
         (solutions (searchOptimalCombination scenarioParams))"
proof -
  from scenario_solutions obtain sols
    where sols: "searchOptimalCombination scenarioParams = SuccessResult sols"
      "list_all (\<lambda>s. batteryCount s \<in> {2, 3, 4}
                     \<and> list_all (\<lambda>a. value (ratio a) \<le> 1 / 48) (Solution.batteries s)
                     \<and> 7700 / 243 \<le> excess s) sols"
    by blast
  from sols(2) have "\<not> list_ex (\<lambda>s. batteryCount s = 1
        \<or> list_ex (\<lambda>a. value (ratio a) = 1) (Solution.batteries s) \<or> excess s < 30) sols"
    by (fastforce simp: list_all_iff list_ex_iff)
  with sols(1) scenario_one show ?thesis
    by simp
qed

section \<open>Searches that run and find nothing\<close>

lemma ceiling_five_halves: "\<lceil>(5::rat) / 2\<rceil> = 3"
  by (simp add: ceiling_eq_iff)

lemma hopelessParams_sel [simp]:
  "D hopelessParams = 250" "P_base hopelessParams = 0" "R hopelessParams = 1"
  "maxDepth hopelessParams = 1" "Params.batteries hopelessParams = [unitBattery 100]"
  by (simp_all add: hopelessParams_def)

lemma hopeless_range: "[minBatteries hopelessParams..searchLimit hopelessParams] = [3]"
  by (simp add: minBatteries_def searchLimit_def maximum_def minimum_def ceiling_five_halves
        upto.simps)

lemma hopeless_usable:
  "usableRatios hopelessParams (generateValidRatios (Suc 0)) =
     [mkRatio 1, mkRatio (1 / 2), mkRatio (1 / 3)]"
  by (simp add: usableRatios_def catalog_depth1 maximum_def)

lemma hopeless_three:
  "searchForNBatteries 3 hopelessParams (generateValidRatios (Suc 0)) = []"
  by (simp add: hopeless_usable searchForNBatteries_def numeral_3_eq_3
        findBestVariableAssignment_def Let_def sumValues_def upt_rec)

lemma starvedParams_sel [simp]:
  "D starvedParams = 50" "P_base starvedParams = 0" "R starvedParams = 1"
  "maxDepth starvedParams = 1" "Params.batteries starvedParams = [thriftyBattery]"
  by (simp_all add: starvedParams_def)

lemma thriftyBattery_sel [simp]:
  "BatteryType.power thriftyBattery = 100" "consume thriftyBattery = 1 / 1000"
  by (simp_all add: thriftyBattery_def)

lemma starved_range: "[minBatteries starvedParams..searchLimit starvedParams] = [1, 2, 3, 4]"
  by (simp add: minBatteries_def searchLimit_def maximum_def minimum_def ceiling_half
        upto.simps)

lemma starved_usable: "usableRatios starvedParams (generateValidRatios (Suc 0)) = []"
  by (simp add: usableRatios_def catalog_depth1 maximum_def)

lemma starved_search: "searchForNBatteries n starvedParams (generateValidRatios (Suc 0)) = []"
  by (simp add: searchForNBatteries_def starved_usable)

text \<open>Two inputs on which the search runs and finds nothing.  On \<open>hopelessParams\<close> the
  range is the single count \<open>3\<close>, all three ratios are usable, and the only selection
  within the flow bound, three times \<open>1/3\<close>, yields \<open>100 < 250 - 0.01\<close>.  On
  \<open>starvedParams\<close> the range is \<open>1..4\<close> and each search returns at once because no ratio
  is usable.\<close>

theorem failure_when_no_candidate_witness:
  "[minBatteries hopelessParams..searchLimit hopelessParams] = [3]
   \<and> usableRatios hopelessParams (generateValidRatios (maxDepth hopelessParams)) \<noteq> []
   \<and> searchForNBatteries 3 hopelessParams (generateValidRatios (maxDepth hopelessParams)) = []
   \<and> searchOptimalCombination hopelessParams = FailureResult noSolutionMessage []
   \<and> [minBatteries starvedParams..searchLimit starvedParams] = [1, 2, 3, 4]
   \<and> usableRatios starvedParams (generateValidRatios (maxDepth starvedParams)) = []
   \<and> searchOptimalCombination starvedParams = FailureResult noSolutionMessage []"
proof -
  have "P_base hopelessParams < D hopelessParams"
    by simp
  from failure_when_no_candidate [OF this]
  have hopeless: "searchOptimalCombination hopelessParams = FailureResult noSolutionMessage []"
    by (simp add: hopeless_range hopeless_three)
  have "P_base starvedParams < D starvedParams"
    by simp
  from failure_when_no_candidate [OF this]
  have starved: "searchOptimalCombination starvedParams = FailureResult noSolutionMessage []"
    by (simp add: starved_search)
  from hopeless starved show ?thesis
    by (simp add: hopeless_range hopeless_usable hopeless_three starved_range starved_usable)
qed

section \<open>The description of the splitter network\<close>

lemma batteryTexts_append [simp]: "batteryTexts (a @ b) = batteryTexts a @ batteryTexts b"
  by (simp add: batteryTexts_def)

lemma batteryTexts_Nil [simp]: "batteryTexts [] = []"
  by (simp add: batteryTexts_def)

lemma batteryTexts_Cons [simp]: "batteryTexts (l # d) = batteryText l @ batteryTexts d"
  by (simp add: batteryTexts_def)

text \<open>The three counts that \<open>outletsConsistent\<close> compares, kept apart while a splitter's
  lines are being written.\<close>

lemma outletStep_fold:
  "batteryTexts (fst (fold (outletStep sp) js st)) = batteryTexts (fst st)
   \<and> sum_list (map printsOutlet (fst (fold (outletStep sp) js st)))
       = sum_list (map printsOutlet (fst st)) + length js
   \<and> map announced (fst (fold (outletStep sp) js st)) = map announced (fst st) @ replicate (length js) 0"
proof (induction js arbitrary: st)
  case Nil
  show ?case by simp
next
  case (Cons j js)
  obtain desc ind where st: "st = (desc, ind)" by (cases st)
  have one: "batteryTexts (fst (outletStep sp j st)) = batteryTexts (fst st)"
    "sum_list (map printsOutlet (fst (outletStep sp j st)))
       = sum_list (map printsOutlet (fst st)) + 1"
    "map announced (fst (outletStep sp j st)) = map announced (fst st) @ [0]"
    by (simp_all add: st outletStep_def)
  from Cons.IH [of "outletStep sp j st"] show ?case
    by (simp add: one)
qed

lemma splitStep_splitter:
  assumes "Split.type sp = splitter" and "outlets sp = 2 \<or> outlets sp = 3"
  shows "batteryTexts (fst (splitStep fr sp st)) = batteryTexts (fst st)
   \<and> sum_list (map printsOutlet (fst (splitStep fr sp st)))
       = sum_list (map printsOutlet (fst st)) + outlets sp
   \<and> sum_list (map announced (fst (splitStep fr sp st)))
       = sum_list (map announced (fst st)) + outlets sp
   \<and> (list_all (\<lambda>l. announced l \<in> {0, 2, 3}) (fst st)
        \<longrightarrow> list_all (\<lambda>l. announced l \<in> {0, 2, 3}) (fst (splitStep fr sp st)))"
proof -
  obtain desc ind where st: "st = (desc, ind)" by (cases st)
  let ?start = "(desc @ [SplitterLine ind (if outlets sp = 2 then 2 else 3)], ind)"
  have step: "splitStep fr sp st = fold (outletStep sp) [0..<outlets sp] ?start"
    using assms(1) by (simp add: splitStep_def st)
  from outletStep_fold [of sp "[0..<outlets sp]" ?start]
  have texts: "batteryTexts (fst (splitStep fr sp st)) = batteryTexts desc"
    and prints: "sum_list (map printsOutlet (fst (splitStep fr sp st)))
       = sum_list (map printsOutlet desc) + outlets sp"
    and ann: "map announced (fst (splitStep fr sp st))
       = map announced desc @ [if outlets sp = 2 then 2 else 3] @ replicate (outlets sp) 0"
    unfolding step by simp_all
  from ann assms(2) have sum: "sum_list (map announced (fst (splitStep fr sp st)))
       = sum_list (map announced desc) + outlets sp"
    by (auto simp: sum_list_replicate)
  have "list_all (\<lambda>l. announced l \<in> {0, 2, 3}) (fst (splitStep fr sp st))"
    if "list_all (\<lambda>l. announced l \<in> {0, 2, 3}) desc"
  proof -
    have "list_all (\<lambda>k. k \<in> {0, 2, 3}) (map announced (fst (splitStep fr sp st)))"
      using that unfolding ann by (auto simp: list_all_iff)
    then show ?thesis
      by (simp add: list_all_iff)
  qed
  with texts prints sum show ?thesis
    by (simp add: st)
qed

lemma splitStep_fold:
  assumes "\<forall>sp \<in> set sq. Split.type sp = splitter \<and> (outlets sp = 2 \<or> outlets sp = 3)"
    and "list_all (\<lambda>l. announced l \<in> {0, 2, 3}) (fst st)"
    and "sum_list (map printsOutlet (fst st)) = sum_list (map announced (fst st))"
  shows "batteryTexts (fst (fold (splitStep fr) sq st)) = batteryTexts (fst st)
   \<and> list_all (\<lambda>l. announced l \<in> {0, 2, 3}) (fst (fold (splitStep fr) sq st))
   \<and> sum_list (map printsOutlet (fst (fold (splitStep fr) sq st)))
       = sum_list (map announced (fst (fold (splitStep fr) sq st)))"
  using assms
proof (induction sq arbitrary: st)
  case Nil
  then show ?case by simp
next
  case (Cons sp sq)
  from Cons.prems(1) have sp: "Split.type sp = splitter" "outlets sp = 2 \<or> outlets sp = 3"
    by simp_all
  from splitStep_splitter [OF sp, of fr st] Cons.prems(2,3)
  have "batteryTexts (fst (splitStep fr sp st)) = batteryTexts (fst st)"
    and "list_all (\<lambda>l. announced l \<in> {0, 2, 3}) (fst (splitStep fr sp st))"
    and "sum_list (map printsOutlet (fst (splitStep fr sp st)))
       = sum_list (map announced (fst (splitStep fr sp st)))"
    by simp_all
  with Cons.IH [of "splitStep fr sp st"] Cons.prems(1) show ?case
    by simp
qed

lemma findSplitSequence_splitters:
  "\<forall>sp \<in> set (findSplitSequence v f). Split.type sp = splitter \<and> (outlets sp = 2 \<or> outlets sp = 3)"
  by (auto simp: findSplitSequence_def Let_def split: prod.splits)

lemma outletsConsistent_append:
  "outletsConsistent a \<Longrightarrow> outletsConsistent b \<Longrightarrow> outletsConsistent (a @ b)"
  by (simp add: outletsConsistent_def)

text \<open>A branch is one battery line after the splitter stages of its ratio.\<close>

lemma constructBranch_description:
  "batteryTexts (constructBranch r f d) = [fraction r] \<and> outletsConsistent (constructBranch r f d)"
proof (cases "findSplitSequence (value r) f = []")
  case True
  then show ?thesis
    by (simp add: constructBranch_def outletsConsistent_def)
next
  case False
  obtain desc ind where fold: "fold (splitStep (fraction r)) (findSplitSequence (value r) f) ([], d)
      = (desc, ind)"
    by (cases "fold (splitStep (fraction r)) (findSplitSequence (value r) f) ([], d)")
  from splitStep_fold [where sq = "findSplitSequence (value r) f" and st = "([], d)"
      and fr = "fraction r", OF findSplitSequence_splitters]
  have "batteryTexts desc = []" "list_all (\<lambda>l. announced l \<in> {0, 2, 3}) desc"
    "sum_list (map printsOutlet desc) = sum_list (map announced desc)"
    unfolding fold by simp_all
  with False fold show ?thesis
    by (simp add: constructBranch_def outletsConsistent_def)
qed

text \<open>The groups of a list: none is empty, together they are the list, and groups of a
  third of the length (rounded up) are at most three.\<close>

lemma chunks_nonempty: "g \<in> set (chunks k xs) \<Longrightarrow> g \<noteq> []"
proof (induction k xs rule: chunks.induct)
  case (1 k xs)
  from "1.prems" have ne: "\<not> (k = 0 \<or> xs = [])"
    by (subst (asm) chunks.simps) (auto split: if_splits)
  with "1.prems" have "g = take k xs \<or> g \<in> set (chunks k (drop k xs))"
    by (subst (asm) chunks.simps) simp
  with ne "1.IH" show ?case
    by auto
qed

lemma concat_chunks: "0 < k \<Longrightarrow> concat (chunks k xs) = xs"
proof (induction k xs rule: chunks.induct)
  case (1 k xs)
  show ?case
  proof (cases "xs = []")
    case True
    then show ?thesis by (simp add: chunks.simps)
  next
    case False
    with 1 have "concat (chunks k (drop k xs)) = drop k xs"
      by simp
    with False 1(2) show ?thesis
      by (subst chunks.simps) simp
  qed
qed

lemma chunks_third_count:
  assumes "4 \<le> length xs"
  shows "length (chunks (nat \<lceil>rat_of_nat (length xs) / 3\<rceil>) xs) \<le> 3"
proof -
  let ?k = "nat \<lceil>rat_of_nat (length xs) / 3\<rceil>"
  have "rat_of_nat (length xs) / 3 \<le> of_int \<lceil>rat_of_nat (length xs) / 3\<rceil>"
    by (rule le_of_int_ceiling)
  then have "rat_of_nat (length xs) \<le> 3 * of_int \<lceil>rat_of_nat (length xs) / 3\<rceil>"
    by linarith
  then have "int (length xs) \<le> 3 * \<lceil>rat_of_nat (length xs) / 3\<rceil>"
    by (metis (mono_tags, opaque_lifting) of_int_le_iff of_int_mult of_int_numeral of_int_of_nat_eq)
  then have k: "length xs \<le> 3 * ?k"
    by linarith
  with assms have pos: "0 < ?k"
    by linarith
  from chunks_count [OF pos, of xs] k
  have "length (chunks ?k xs) * ?k < 4 * ?k"
    by linarith
  then have "length (chunks ?k xs) < 4"
    by simp
  then show ?thesis by simp
qed

lemma batteryTexts_concat: "batteryTexts (concat ds) = concat (map batteryTexts ds)"
  by (induction ds) simp_all

lemma concat_groups_texts:
  assumes "\<forall>x \<in> set xs. batteryTexts (F x) = map fraction (snd x)"
  shows "batteryTexts (concat (map F xs)) = map fraction (concat (map snd xs))"
  using assms by (induction xs) simp_all

lemma concat_groups_counts:
  assumes "\<forall>x \<in> set xs. list_all (\<lambda>l. announced l \<in> {0, 2, 3}) (F x)
                         \<and> sum_list (map printsOutlet (F x)) = 1 + sum_list (map announced (F x))"
  shows "list_all (\<lambda>l. announced l \<in> {0, 2, 3}) (concat (map F xs))
         \<and> sum_list (map printsOutlet (concat (map F xs)))
             = length xs + sum_list (map announced (concat (map F xs)))"
  using assms by (induction xs) simp_all

lemma return_lines_counts:
  "batteryTexts (map (\<lambda>i. OutletReturnLine d l (f i)) js) = []
   \<and> list_all (\<lambda>l. announced l \<in> {0, 2, 3}) (map (\<lambda>i. OutletReturnLine d l (f i)) js)
   \<and> sum_list (map printsOutlet (map (\<lambda>i. OutletReturnLine d l (f i)) js)) = length js
   \<and> sum_list (map announced (map (\<lambda>i. OutletReturnLine d l (f i)) js)) = 0"
  by (induction js) simp_all

text \<open>The description of a network lists the batteries of its ratios in order, and its
  outlet lines match what its splitter lines announce; the node list stays empty.\<close>

lemma buildNetworkTree_description:
  "batteryTexts (description (buildNetworkTree rs f d)) = map fraction rs
   \<and> outletsConsistent (description (buildNetworkTree rs f d))
   \<and> (nodes (buildNetworkTree rs f d) = None \<or> nodes (buildNetworkTree rs f d) = Some [])"
proof (induction rs f d rule: buildNetworkTree.induct)
  case (1 ratios totalFlow depth0)
  let ?n = "length ratios"
  consider (zero) "?n = 0" | (one) "?n = 1" | (two) "?n = 2" | (three) "?n = 3" | (more) "4 \<le> ?n"
    by linarith
  then show ?case
  proof cases
    case zero
    then have "buildNetworkTree ratios totalFlow depth0
        = \<lparr>description = [ReturnLine depth0], nodes = Some []\<rparr>"
      by (subst buildNetworkTree.simps) simp
    then show ?thesis
      using zero by (simp add: outletsConsistent_def)
  next
    case one
    then obtain r where r: "ratios = [r]"
      by (cases ratios) auto
    have "buildNetworkTree ratios totalFlow depth0
        = \<lparr>description = constructBranch r totalFlow depth0, nodes = None\<rparr>"
      by (subst buildNetworkTree.simps) (simp add: r)
    with constructBranch_description [of r totalFlow depth0] show ?thesis
      by (simp add: r)
  next
    case two
    then obtain r1 r2 where r: "ratios = [r1, r2]"
      by (cases ratios; cases "tl ratios") auto
    have "buildNetworkTree ratios totalFlow depth0
        = \<lparr>description =
               [SplitterLine depth0 3, OutletLine depth0 False 1 (Some ''1/3'')]
               @ constructBranch r1 (totalFlow / 3) (depth0 + 2)
               @ [OutletLine depth0 False 2 (Some ''1/3'')]
               @ constructBranch r2 (totalFlow / 3) (depth0 + 2)
               @ [OutletReturnLine depth0 True 3],
             nodes = Some []\<rparr>"
      by (subst buildNetworkTree.simps) (simp add: r)
    with constructBranch_description [of r1 "totalFlow / 3" "depth0 + 2"]
      constructBranch_description [of r2 "totalFlow / 3" "depth0 + 2"]
    show ?thesis
      by (simp add: r outletsConsistent_def)
  next
    case three
    then obtain r1 r2 r3 where r: "ratios = [r1, r2, r3]"
      by (cases ratios; cases "tl ratios"; cases "tl (tl ratios)") auto
    have "buildNetworkTree ratios totalFlow depth0
        = \<lparr>description =
               [SplitterLine depth0 3, OutletLine depth0 False 1 (Some ''1/3'')]
               @ constructBranch r1 (totalFlow / 3) (depth0 + 2)
               @ [OutletLine depth0 False 2 (Some ''1/3'')]
               @ constructBranch r2 (totalFlow / 3) (depth0 + 2)
               @ [OutletLine depth0 True 3 (Some ''1/3'')]
               @ constructBranch r3 (totalFlow / 3) (depth0 + 2),
             nodes = Some []\<rparr>"
      by (subst buildNetworkTree.simps) (simp add: r upt_rec)
    with constructBranch_description [of r1 "totalFlow / 3" "depth0 + 2"]
      constructBranch_description [of r2 "totalFlow / 3" "depth0 + 2"]
      constructBranch_description [of r3 "totalFlow / 3" "depth0 + 2"]
    show ?thesis
      by (simp add: r outletsConsistent_def)
  next
    case more
    let ?k = "nat \<lceil>rat_of_nat ?n / 3\<rceil>"
    let ?groups = "chunks ?k ratios"
    let ?F = "\<lambda>(idx, g).
                 if length g = 0
                 then [OutletReturnLine depth0 (\<not> idx < length ?groups - 1) (idx + 1)]
                 else OutletLine depth0 (\<not> idx < length ?groups - 1) (idx + 1)
                        (Some (''1/'' @ show_nat (length ?groups)))
                      # description (buildNetworkTree g
                          (totalFlow / rat_of_nat (length ?groups)) (depth0 + 2))"
    let ?fill = "map (\<lambda>i. OutletReturnLine depth0 True (i + 1)) [length ?groups..<3]"
    from more have ne: "ratios \<noteq> []" "?n \<noteq> 0" "?n \<noteq> 1" "?n \<noteq> 2" "?n \<noteq> 3"
      by auto
    then have unfold: "buildNetworkTree ratios totalFlow depth0 =
        \<lparr>description = [SplitterLine depth0 3]
            @ concat (map ?F (List.enumerate 0 ?groups)) @ ?fill,
         nodes = Some []\<rparr>"
      by (subst buildNetworkTree.simps) (simp add: Let_def)
    from ne(1) have k: "0 < ?k"
      by (simp add: zero_less_ceiling)
    have count: "length ?groups \<le> 3"
      using more by (rule chunks_third_count)
    have group: "batteryTexts (?F x) = map fraction (snd x)
        \<and> list_all (\<lambda>l. announced l \<in> {0, 2, 3}) (?F x)
        \<and> sum_list (map printsOutlet (?F x)) = 1 + sum_list (map announced (?F x))"
      if x: "x \<in> set (List.enumerate 0 ?groups)" for x
    proof -
      obtain idx g where xg: "x = (idx, g)" by (cases x)
      with x have "g \<in> set ?groups"
        by (auto simp: in_set_enumerate_eq)
      then have g: "length g \<noteq> 0"
        using chunks_nonempty by fastforce
      from "1.IH" [OF ne(2-5) refl refl x xg [symmetric] g]
      have "batteryTexts (description (buildNetworkTree g
                (totalFlow / rat_of_nat (length ?groups)) (depth0 + 2))) = map fraction g"
        and "outletsConsistent (description (buildNetworkTree g
                (totalFlow / rat_of_nat (length ?groups)) (depth0 + 2)))"
        by simp_all
      with g show ?thesis
        by (simp add: xg outletsConsistent_def)
    qed
    have texts: "batteryTexts (concat (map ?F (List.enumerate 0 ?groups))) = map fraction ratios"
    proof -
      have "batteryTexts (concat (map ?F (List.enumerate 0 ?groups)))
          = map fraction (concat (map snd (List.enumerate 0 ?groups)))"
        using group by (intro concat_groups_texts) blast
      also have "\<dots> = map fraction (concat ?groups)"
        by simp
      also have "\<dots> = map fraction ratios"
        by (simp only: concat_chunks [OF k])
      finally show ?thesis .
    qed
    have counts: "list_all (\<lambda>l. announced l \<in> {0, 2, 3}) (concat (map ?F (List.enumerate 0 ?groups)))
         \<and> sum_list (map printsOutlet (concat (map ?F (List.enumerate 0 ?groups))))
             = length (List.enumerate 0 ?groups)
               + sum_list (map announced (concat (map ?F (List.enumerate 0 ?groups))))"
      using group by (intro concat_groups_counts) blast
    from return_lines_counts [of depth0 True "\<lambda>i. i + 1" "[length ?groups..<3]"]
    have fill: "batteryTexts ?fill = []" "list_all (\<lambda>l. announced l \<in> {0, 2, 3}) ?fill"
        "sum_list (map printsOutlet ?fill) = 3 - length ?groups"
        "sum_list (map announced ?fill) = 0"
      by simp_all
    from texts counts fill count show ?thesis
      unfolding unfold by (simp add: outletsConsistent_def)
  qed
qed

text \<open>What \<open>constructSplitterNetwork\<close> returns for a solution with batteries.\<close>

lemma constructSplitterNetwork_description:
  assumes "success s" and "batteryCount s \<noteq> 0"
  shows "batteryTexts (description (constructSplitterNetwork s))
           = map (\<lambda>a. fraction (ratio a)) (Solution.batteries s)
         \<and> outletsConsistent (description (constructSplitterNetwork s))
         \<and> (nodes (constructSplitterNetwork s) = None \<or> nodes (constructSplitterNetwork s) = Some [])"
proof -
  obtain t where "constructSplitterNetwork s
      = buildNetworkTree (map ratio (Solution.batteries s)) t 0"
    using assms by (simp add: constructSplitterNetwork_def Let_def)
  with buildNetworkTree_description [of "map ratio (Solution.batteries s)" t 0] show ?thesis
    by (simp add: comp_def)
qed

section \<open>The tree of the visualizer\<close>

text \<open>A battery branch has one battery leaf, under two-outlet splitters that each hold the
  branch and a return node.\<close>

lemma wrapped_leaves:
  "batteryLeaves (((\<lambda>current. SplitterNode 2 [current, ReturnNode]) ^^ n) x) = batteryLeaves x"
  by (induction n) simp_all

lemma wrapped_exact:
  "splittersExact (((\<lambda>current. SplitterNode 2 [current, ReturnNode]) ^^ n) x) = splittersExact x"
  by (induction n) simp_all

lemma buildBatteryBranch_tree:
  "batteryLeaves (buildBatteryBranch b i) = [fraction (ratio b)]
   \<and> splittersExact (buildBatteryBranch b i)"
  by (simp add: buildBatteryBranch_def Let_def wrapped_leaves wrapped_exact)

text \<open>Grouping keeps the leaves and their order, and every splitter it adds has the two
  or three children of its slice.\<close>

lemma chunks_subset:
  assumes "g \<in> set (chunks k xs)"
  shows "set g \<subseteq> set xs"
proof (cases "k = 0")
  case True
  with assms show ?thesis by (simp add: chunks.simps)
next
  case False
  then have "concat (chunks k xs) = xs"
    by (simp add: concat_chunks)
  then have "set xs = (\<Union>h \<in> set (chunks k xs). set h)"
    by (metis set_concat)
  with assms show ?thesis by blast
qed

lemma chunks_lower: "0 < k \<Longrightarrow> length xs \<le> length (chunks k xs) * k"
proof (induction k xs rule: chunks.induct)
  case (1 k xs)
  show ?case
  proof (cases "xs = []")
    case True
    then show ?thesis by simp
  next
    case False
    with 1 have ih: "length (drop k xs) \<le> length (chunks k (drop k xs)) * k"
      by simp
    have "length (chunks k xs) = Suc (length (chunks k (drop k xs)))"
      using False 1(2) by (subst chunks.simps) simp
    with ih show ?thesis by simp
  qed
qed

lemma grouped_node:
  assumes "g \<noteq> []" and "length g \<le> 3" and "list_all splittersExact g"
  shows "batteryLeaves (if length g = 1 then g ! 0 else SplitterNode (length g) g)
           = concat (map batteryLeaves g)
         \<and> splittersExact (if length g = 1 then g ! 0 else SplitterNode (length g) g)"
proof (cases "length g = 1")
  case True
  then obtain x where "g = [x]"
    by (cases g) simp_all
  with assms show ?thesis by simp
next
  case False
  moreover from assms(1) have "length g \<noteq> 0"
    by simp
  ultimately have "length g = 2 \<or> length g = 3"
    using assms(2) by arith
  with False assms(3) show ?thesis by auto
qed

lemma concat_map_groups:
  "concat (map (\<lambda>g. concat (map f g)) xss) = concat (map f (concat xss))"
  by (induction xss) simp_all

lemma groupNodes_tree:
  assumes "list_all splittersExact ns"
  shows "concat (map batteryLeaves (groupNodes ns)) = concat (map batteryLeaves ns)
         \<and> list_all splittersExact (groupNodes ns)"
proof -
  let ?node = "\<lambda>g. if length g = 1 then g ! 0 else SplitterNode (length g) g"
  have each: "batteryLeaves (?node g) = concat (map batteryLeaves g) \<and> splittersExact (?node g)"
    if "g \<in> set (chunks 3 ns)" for g
  proof (rule grouped_node)
    from that show "g \<noteq> []" by (rule chunks_nonempty)
    from that show "length g \<le> 3" by (rule chunks_length)
    from that have "set g \<subseteq> set ns" by (rule chunks_subset)
    with assms show "list_all splittersExact g"
      by (auto simp: list_all_iff)
  qed
  then have "map batteryLeaves (groupNodes ns)
      = map (\<lambda>g. concat (map batteryLeaves g)) (chunks 3 ns)"
    by (simp add: groupNodes_def)
  then have "concat (map batteryLeaves (groupNodes ns))
      = concat (map batteryLeaves (concat (chunks 3 ns)))"
    by (simp only: concat_map_groups)
  moreover have "concat (chunks 3 ns) = ns"
    by (simp add: concat_chunks)
  moreover have "list_all splittersExact (map ?node (chunks 3 ns))"
    unfolding list_all_iff set_map using each by blast
  then have "list_all splittersExact (groupNodes ns)"
    by (simp only: groupNodes_def)
  ultimately show ?thesis by simp
qed

lemma groupNodes_count: "3 < length ns \<Longrightarrow> 2 \<le> length (groupNodes ns)"
  using chunks_lower [of 3 ns] by (simp add: groupNodes_def)

text \<open>From two nodes on, the splitter tree keeps the leaves of its nodes in order and
  every splitter in it has as many children as it declares, two or three.\<close>

lemma buildSplitterTree_tree:
  "2 \<le> length ns \<Longrightarrow> list_all splittersExact ns \<Longrightarrow>
   batteryLeaves (buildSplitterTree ns) = concat (map batteryLeaves ns)
   \<and> splittersExact (buildSplitterTree ns)"
proof (induction ns rule: buildSplitterTree.induct)
  case (1 ns)
  show ?case
  proof (cases "length ns \<le> 3")
    case True
    then have "buildSplitterTree ns = SplitterNode (length ns) ns"
      by (subst buildSplitterTree.simps) simp
    moreover from True "1.prems"(1) have "length ns = 2 \<or> length ns = 3"
      by arith
    ultimately show ?thesis
      using "1.prems"(2) by auto
  next
    case False
    let ?groups = "groupNodes ns"
    from False have count: "2 \<le> length ?groups"
      by (simp add: groupNodes_count)
    from "1.prems"(2) have grouped:
        "concat (map batteryLeaves ?groups) = concat (map batteryLeaves ns)"
        "list_all splittersExact ?groups"
      by (simp_all add: groupNodes_tree)
    show ?thesis
    proof (cases "length ?groups \<le> 3")
      case True
      with False have "buildSplitterTree ns = SplitterNode (length ?groups) ?groups"
        by (subst buildSplitterTree.simps) (simp add: Let_def)
      moreover from True count have "length ?groups = 2 \<or> length ?groups = 3"
        by arith
      ultimately show ?thesis
        using grouped by auto
    next
      case deeper: False
      with False have "buildSplitterTree ns = buildSplitterTree ?groups"
        by (subst buildSplitterTree.simps) (simp add: Let_def)
      moreover from "1.IH" [OF False refl deeper count grouped(2)]
      have "batteryLeaves (buildSplitterTree ?groups) = concat (map batteryLeaves ?groups)
          \<and> splittersExact (buildSplitterTree ?groups)" .
      ultimately show ?thesis
        using grouped(1) by simp
    qed
  qed
qed

lemma buildVisualizationTree_tree:
  "batteryLeaves (buildVisualizationTree s)
     = map (\<lambda>a. fraction (ratio a)) (Solution.batteries s)
   \<and> splittersExact (buildVisualizationTree s)"
proof (cases "Solution.batteries s = []")
  case True
  then show ?thesis
    by (simp add: buildVisualizationTree_def)
next
  case False
  let ?branches = "map (\<lambda>(idx, b). buildBatteryBranch b idx)
                     (List.enumerate 0 (Solution.batteries s))"
  have leaves: "concat (map batteryLeaves ?branches)
      = map (\<lambda>a. fraction (ratio a)) (Solution.batteries s)"
  proof -
    have "map batteryLeaves ?branches
        = map (\<lambda>p. [fraction (ratio (snd p))]) (List.enumerate 0 (Solution.batteries s))"
      by (simp add: buildBatteryBranch_tree split_def)
    also have "\<dots> = map (\<lambda>a. [fraction (ratio a)]) (map snd (List.enumerate 0 (Solution.batteries s)))"
      by (simp only: map_map comp_def)
    finally have "map batteryLeaves ?branches
        = map (\<lambda>a. [fraction (ratio a)]) (Solution.batteries s)"
      by (simp only: map_snd_enumerate)
    then show ?thesis
      by (simp add: concat_map_singleton)
  qed
  have exact: "list_all splittersExact (?branches @ [ReturnNode])"
    by (simp add: list_all_iff buildBatteryBranch_tree split_def)
  from False have "2 \<le> length (?branches @ [ReturnNode])"
    by (cases "Solution.batteries s") simp_all
  from buildSplitterTree_tree [OF this exact] leaves False show ?thesis
    by (simp add: buildVisualizationTree_def Let_def)
qed

section \<open>What the network synthesis returns\<close>

text \<open>The second two-battery candidate of \<open>smallParams\<close>, on the ratios \<open>1/2\<close> and \<open>1/3\<close>.\<close>

lemma pairSolution_eval:
  "pairSolution =
     \<lparr>type = None, success = True, batteryCount = 2,
        batteries = [mkAssignment 1 (mkRatio (1 / 2)) (unitBattery 100),
                     mkAssignment 1 (mkRatio (1 / 3)) (unitBattery 100)],
        totalPower = 250 / 3, excess = 100 / 3, totalRatio = Some (5 / 6), complexity = 22\<rparr>"
  by (simp add: pairSolution_def small_two)

text \<open>The branches, the description and the tree of \<open>pairSolution\<close>, line by line and
  node by node.\<close>

lemma split_half:
  "findSplitSequence (1 / 2) f = [\<lparr>Split.type = splitter, outlets = 2, targetOutlet = 0\<rparr>]"
  by (simp add: findSplitSequence_def pow_value_def upt_rec)

lemma split_third:
  "findSplitSequence (1 / 3) f = [\<lparr>Split.type = splitter, outlets = 3, targetOutlet = 0\<rparr>]"
  by (simp add: findSplitSequence_def pow_value_def upt_rec)

lemma fixed_small: "toFixed (Suc 0) 50 = ''50.0''" "toFixed (Suc 0) (100 / 3) = ''33.3''"
proof -
  have "\<lfloor>(50::rat) * 10 + 1 / 2\<rfloor> = 500" "\<lfloor>(100::rat) / 3 * 10 + 1 / 2\<rfloor> = 333"
    by (simp_all add: floor_eq_iff)
  then show "toFixed (Suc 0) 50 = ''50.0''" "toFixed (Suc 0) (100 / 3) = ''33.3''"
    by (simp_all add: toFixed_def show_nat.simps digit_char_def)
qed

lemma branch_half:
  "constructBranch (mkRatio (1 / 2)) f d =
     [SplitterLine d 2, OutletLine d False 1 None, OutletReturnLine (d + 1) True 2,
      BatteryLine (d + 1) ''1/2'']"
  by (simp add: constructBranch_def split_half splitStep_def outletStep_def upt_rec)

lemma branch_third:
  "constructBranch (mkRatio (1 / 3)) f d =
     [SplitterLine d 3, OutletLine d False 1 None, OutletReturnLine (d + 1) False 2,
      OutletReturnLine (d + 1) True 3, BatteryLine (d + 1) ''1/3'']"
  by (simp add: constructBranch_def split_third splitStep_def outletStep_def upt_rec)

lemma pair_description:
  "description (constructSplitterNetwork pairSolution) =
     [SplitterLine 0 3,
      OutletLine 0 False 1 (Some ''1/3''),
      SplitterLine 2 2, OutletLine 2 False 1 None, OutletReturnLine 3 True 2,
      BatteryLine 3 ''1/2'',
      OutletLine 0 False 2 (Some ''1/3''),
      SplitterLine 2 3, OutletLine 2 False 1 None, OutletReturnLine 3 False 2,
      OutletReturnLine 3 True 3,
      BatteryLine 3 ''1/3'',
      OutletReturnLine 0 True 3]"
proof -
  have "constructSplitterNetwork pairSolution
      = buildNetworkTree [mkRatio (1 / 2), mkRatio (1 / 3)] (5 / 6) 0"
    by (simp add: pairSolution_eval constructSplitterNetwork_def Let_def)
  then show ?thesis
    by (subst (asm) buildNetworkTree.simps) (simp add: branch_half branch_third)
qed

lemma pair_tree:
  "buildVisualizationTree pairSolution =
     MainNode [SplitterNode 3 [BatteryNode ''standard'' ''1/2'' ''50.0%'',
                               BatteryNode ''standard'' ''1/3'' ''33.3%'',
                               ReturnNode]]"
proof -
  have "buildVisualizationTree pairSolution =
      MainNode [buildSplitterTree [BatteryNode ''standard'' ''1/2'' ''50.0%'',
                                   BatteryNode ''standard'' ''1/3'' ''33.3%'',
                                   ReturnNode]]"
    by (simp add: pairSolution_eval buildVisualizationTree_def Let_def enumerate_eq_zip upt_rec
          buildBatteryBranch_def one_enat_def fixed_small)
  then show ?thesis
    by (subst (asm) buildSplitterTree.simps) simp
qed

text \<open>
  Claim C3, as amended.  For a successful solution whose \<open>batteryCount\<close> is the number of
  its assignments, \<open>constructSplitterNetwork\<close> returns no node tree: its \<open>nodes\<close> field is
  the empty array, or is absent, so it holds no battery leaf.  The description it returns
  has one battery line per assignment, \<open>batteryCount\<close> in all, with the fraction strings of
  the assignments in order; every splitter line in it announces two or three outlets, and
  the outlet lines are as many as the splitter lines announce together.  The tree that
  \<open>SplitterVisualizer.buildVisualizationTree\<close> builds from the same solution has one battery
  leaf per assignment, \<open>batteryCount\<close> in all, with the same fraction strings in order, and
  every splitter node in it has as many children as its \<open>outlets\<close> field says, two or three.
\<close>

theorem network_description_and_visualizer_tree:
  assumes "success s" and "batteryCount s = length (Solution.batteries s)"
  shows "returnedLeaves (constructSplitterNetwork s) = []
         \<and> batteryTexts (description (constructSplitterNetwork s))
             = map (\<lambda>a. fraction (ratio a)) (Solution.batteries s)
         \<and> length (batteryTexts (description (constructSplitterNetwork s))) = batteryCount s
         \<and> outletsConsistent (description (constructSplitterNetwork s))
         \<and> batteryLeaves (buildVisualizationTree s)
             = map (\<lambda>a. fraction (ratio a)) (Solution.batteries s)
         \<and> length (batteryLeaves (buildVisualizationTree s)) = batteryCount s
         \<and> splittersExact (buildVisualizationTree s)"
proof -
  have network: "batteryTexts (description (constructSplitterNetwork s))
        = map (\<lambda>a. fraction (ratio a)) (Solution.batteries s)
      \<and> outletsConsistent (description (constructSplitterNetwork s))
      \<and> (nodes (constructSplitterNetwork s) = None \<or> nodes (constructSplitterNetwork s) = Some [])"
  proof (cases "batteryCount s = 0")
    case True
    with assms(2) show ?thesis
      by (simp add: constructSplitterNetwork_def outletsConsistent_def)
  next
    case False
    with assms(1) show ?thesis
      by (rule constructSplitterNetwork_description)
  qed
  then have "returnedLeaves (constructSplitterNetwork s) = []"
    by (auto simp: returnedLeaves_def)
  with network buildVisualizationTree_tree [of s] assms(2) show ?thesis
    by simp
qed

theorem network_description_and_visualizer_tree_witness:
  "success pairSolution
   \<and> batteryCount pairSolution = 2
   \<and> length (Solution.batteries pairSolution) = 2
   \<and> description (constructSplitterNetwork pairSolution) =
       [SplitterLine 0 3,
        OutletLine 0 False 1 (Some ''1/3''),
        SplitterLine 2 2, OutletLine 2 False 1 None, OutletReturnLine 3 True 2,
        BatteryLine 3 ''1/2'',
        OutletLine 0 False 2 (Some ''1/3''),
        SplitterLine 2 3, OutletLine 2 False 1 None, OutletReturnLine 3 False 2,
        OutletReturnLine 3 True 3,
        BatteryLine 3 ''1/3'',
        OutletReturnLine 0 True 3]
   \<and> batteryTexts (description (constructSplitterNetwork pairSolution)) = [''1/2'', ''1/3'']
   \<and> outletsConsistent (description (constructSplitterNetwork pairSolution))
   \<and> buildVisualizationTree pairSolution =
       MainNode [SplitterNode 3 [BatteryNode ''standard'' ''1/2'' ''50.0%'',
                                 BatteryNode ''standard'' ''1/3'' ''33.3%'',
                                 ReturnNode]]
   \<and> batteryLeaves (buildVisualizationTree pairSolution) = [''1/2'', ''1/3'']
   \<and> splittersExact (buildVisualizationTree pairSolution)"
proof -
  have "success pairSolution"
    and "batteryCount pairSolution = length (Solution.batteries pairSolution)"
    by (simp_all add: pairSolution_eval)
  from network_description_and_visualizer_tree [OF this] pair_description pair_tree
  show ?thesis
    by (simp add: pairSolution_eval)
qed

text \<open>
  Claim C3 as stated fails on \<open>pairSolution\<close>: the solution has two batteries, and the
  \<open>nodes\<close> array that \<open>constructSplitterNetwork\<close> returns for it is empty, so the returned
  structure has no battery leaf.
\<close>

theorem returned_tree_has_no_leaves_counterexample:
  "success pairSolution
   \<and> batteryCount pairSolution = 2
   \<and> nodes (constructSplitterNetwork pairSolution) = Some []
   \<and> length (returnedLeaves (constructSplitterNetwork pairSolution)) \<noteq> batteryCount pairSolution"
proof -
  have "nodes (constructSplitterNetwork pairSolution) = Some []"
    by (simp add: pairSolution_eval constructSplitterNetwork_def Let_def)
       (subst buildNetworkTree.simps, simp)
  then show ?thesis
    by (simp add: returnedLeaves_def pairSolution_eval)
qed

end
